theory Spec2Isabelle
  imports Complex_Main "HOL-Library.List_Lexorder" "HOL-Library.Char_ord" "HOL-Library.Word"
begin

section \<open>Exceptions and results\<close>

text \<open>
  Every \<^verbatim>\<open>raise\<close> of \<^verbatim>\<open>Lab_2_4_LR2.py\<close> and every exception of the numeric library it
  calls is a value of \<open>error\<close>. A call returns \<open>Inl e\<close> when it raises \<open>e\<close> and \<open>Inr v\<close> when
  it returns \<open>v\<close>. The \<open>ValueError\<close> carries its message; the messages of the numeric
  library are abbreviated.
\<close>

datatype error =
    ValueError string
  | ZeroDivisionError
  | IndexError
  | TypeError
  | LinAlgError

type_synonym 'a result = "error + 'a"

section \<open>Arrays of the numeric library\<close>

text \<open>
  A two-dimensional array is its column count and its rows, so that the shape \<open>(0, c)\<close>
  is a value of its own; the row count is the number of rows. A well-formed array has
  rows of the stated width. Numbers are real numbers: the arithmetic of the model is exact.
\<close>

datatype 'a array2 = Array2 (ncols: nat) (rows: "'a list list")

datatype 'a ndarray = A1 "'a list" | A2 "'a array2"

definition nrows :: "'a array2 \<Rightarrow> nat" where
  "nrows M = length (rows M)"

definition wf_array2 :: "'a array2 \<Rightarrow> bool" where
  "wf_array2 M = list_all (\<lambda>r. length r = ncols M) (rows M)"

definition column :: "'a array2 \<Rightarrow> nat \<Rightarrow> 'a list" where
  "column M j = map (\<lambda>r. r ! j) (rows M)"

definition np_transpose :: "'a array2 \<Rightarrow> 'a array2" where
  "np_transpose M = Array2 (nrows M) (map (column M) [0..<ncols M])"

definition reshape_column :: "'a list \<Rightarrow> 'a array2" where
  \<comment> \<open>\<^verbatim>\<open>X.reshape(-1, 1)\<close> of a one-dimensional array\<close>
  "reshape_column xs = Array2 1 (map (\<lambda>x. [x]) xs)"

definition np_ones :: "nat \<Rightarrow> nat \<Rightarrow> real array2" where
  "np_ones r c = Array2 c (replicate r (replicate c 1))"

definition np_hstack2 :: "'a array2 \<Rightarrow> 'a array2 \<Rightarrow> 'a array2 result" where
  "np_hstack2 A B =
     (if nrows A = nrows B
      then Inr (Array2 (ncols A + ncols B) (map2 (@) (rows A) (rows B)))
      else Inl (ValueError ''all the input array dimensions except for the concatenation axis must match exactly''))"

definition inner :: "real list \<Rightarrow> real list \<Rightarrow> real" where
  "inner u v = sum_list (map2 (*) u v)"

definition np_dot_mv :: "real array2 \<Rightarrow> real list \<Rightarrow> real list result" where
  \<comment> \<open>\<^verbatim>\<open>np.dot\<close> of a matrix and a vector\<close>
  "np_dot_mv M v =
     (if ncols M = length v then Inr (map (\<lambda>r. inner r v) (rows M))
      else Inl (ValueError ''shapes not aligned''))"

definition np_dot_mm :: "real array2 \<Rightarrow> real array2 \<Rightarrow> real array2 result" where
  \<comment> \<open>\<^verbatim>\<open>np.dot\<close> of two matrices\<close>
  "np_dot_mm A B =
     (if ncols A = nrows B
      then Inr (Array2 (ncols B)
                  (map (\<lambda>r. map (\<lambda>j. inner r (column B j)) [0..<ncols B]) (rows A)))
      else Inl (ValueError ''shapes not aligned''))"

definition np_subtract :: "real list \<Rightarrow> real list \<Rightarrow> real list result" where
  \<comment> \<open>\<^verbatim>\<open>a - b\<close> of two one-dimensional arrays, with broadcasting of a length-one operand\<close>
  "np_subtract xs ys =
     (if length xs = length ys then Inr (map2 (-) xs ys)
      else (case ys of
              [b] \<Rightarrow> Inr (map (\<lambda>x. x - b) xs)
            | _ \<Rightarrow> (case xs of
                      [a] \<Rightarrow> Inr (map (\<lambda>y. a - y) ys)
                    | _ \<Rightarrow> Inl (ValueError ''operands could not be broadcast together''))))"

definition np_isub :: "real list \<Rightarrow> real list \<Rightarrow> real list result" where
  \<comment> \<open>the new contents of \<open>xs\<close> after the in-place \<^verbatim>\<open>xs -= ys\<close>; only \<open>ys\<close> may be broadcast\<close>
  "np_isub xs ys =
     (if length xs = length ys then Inr (map2 (-) xs ys)
      else (case ys of
              [b] \<Rightarrow> Inr (map (\<lambda>x. x - b) xs)
            | _ \<Rightarrow> Inl (ValueError ''operands could not be broadcast together'')))"

definition np_multiply :: "real list \<Rightarrow> real list \<Rightarrow> real list result" where
  \<comment> \<open>\<^verbatim>\<open>a * b\<close> of two one-dimensional arrays, with broadcasting of a length-one operand\<close>
  "np_multiply xs ys =
     (if length xs = length ys then Inr (map2 (*) xs ys)
      else (case ys of
              [b] \<Rightarrow> Inr (map (\<lambda>x. x * b) xs)
            | _ \<Rightarrow> (case xs of
                      [a] \<Rightarrow> Inr (map (\<lambda>y. a * y) ys)
                    | _ \<Rightarrow> Inl (ValueError ''operands could not be broadcast together''))))"

section \<open>The store of array objects\<close>

text \<open>
  An array object lives at an address of the store; a variable or an attribute that is
  bound to an array holds the address. \<open>alloc\<close> is what creating a new array does,
  \<open>put\<close> is an in-place write, \<open>mem h a\<close> reads.
\<close>

record 'v heap =
  mem :: "nat \<Rightarrow> 'v"
  top :: nat

definition new_heap :: "'v \<Rightarrow> 'v heap" where
  "new_heap v = \<lparr>mem = (\<lambda>a. v), top = 0\<rparr>"

definition alloc :: "'v heap \<Rightarrow> 'v \<Rightarrow> 'v heap \<times> nat" where
  "alloc h v = (h\<lparr>mem := (mem h)(top h := v), top := Suc (top h)\<rparr>, top h)"

definition put :: "'v heap \<Rightarrow> nat \<Rightarrow> 'v \<Rightarrow> 'v heap" where
  "put h a v = h\<lparr>mem := (mem h)(a := v)\<rparr>"

section \<open>LinearRegressor\<close>

text \<open>
  The object has the attributes \<open>coefficients\<close> (an array, or \<open>None\<close>) and \<open>intercept\<close>
  (a number, or \<open>None\<close>). A method takes the store and the object and returns its
  outcome together with the store and the object as the call leaves them, also when it
  raises.
\<close>

record LinearRegressor =
  coefficients :: "nat option"
  intercept :: "real option"

definition init :: LinearRegressor where
  "init = \<lparr>coefficients = None, intercept = None\<rparr>"

type_synonym state = "real list heap \<times> LinearRegressor"

text \<open>The three histories of gradient descent, as the loop names them.\<close>

type_synonym history = "real list \<times> nat list \<times> real list"

definition fit_multiple ::
  "(real array2 \<Rightarrow> real array2 result) \<Rightarrow> real array2 \<Rightarrow> real list \<Rightarrow> state \<Rightarrow> unit result \<times> state" where
  \<comment> \<open>\<open>linalg_inv\<close> is \<^verbatim>\<open>np.linalg.inv\<close> of the numeric library\<close>
  "fit_multiple linalg_inv X y = (\<lambda>(h, self).
     let X_transpose = np_transpose X in
     case np_dot_mm X_transpose X of
       Inl e \<Rightarrow> (Inl e, (h, self))
     | Inr XtX \<Rightarrow>
     (case linalg_inv XtX of
       Inl e \<Rightarrow> (Inl e, (h, self))
     | Inr Minv \<Rightarrow>
     (case np_dot_mm Minv X_transpose of
       Inl e \<Rightarrow> (Inl e, (h, self))
     | Inr P \<Rightarrow>
     (case np_dot_mv P y of
       Inl e \<Rightarrow> (Inl e, (h, self))
     | Inr w \<Rightarrow>
     (case w of
       [] \<Rightarrow> (Inl IndexError, (h, self))
     | w0 # ws \<Rightarrow>
         let self1 = self\<lparr>intercept := Some w0\<rparr>;
             (h1, a) = alloc h ws
         in (Inr (), (h1, self1\<lparr>coefficients := Some a\<rparr>)))))))"

definition gd_iteration ::
  "real array2 \<Rightarrow> real list \<Rightarrow> real \<Rightarrow> state \<times> history \<Rightarrow> unit result \<times> state \<times> history" where
  \<comment> \<open>the body of the loop of \<^verbatim>\<open>fit_gradient_descent\<close>; the progress line it prints is left out\<close>
  "gd_iteration X y learning_rate = (\<lambda>((h, self), (loss_history, w_history, b_history)).
     let m = length y; hist = (loss_history, w_history, b_history) in
     case (intercept self, coefficients self) of
       (Some b, Some a) \<Rightarrow>
         (case np_dot_mv X (b # mem h a) of
            Inl e \<Rightarrow> (Inl e, (h, self), hist)
          | Inr predictions \<Rightarrow>
         (case np_subtract predictions y of
            Inl e \<Rightarrow> (Inl e, (h, self), hist)
          | Inr err \<Rightarrow>
         if m = 0 then (Inl ZeroDivisionError, (h, self), hist)
         else
         (case np_dot_mv (np_transpose X) err of
            Inl e \<Rightarrow> (Inl e, (h, self), hist)
          | Inr g \<Rightarrow>
         (case map (\<lambda>v. (1 / real m) * v) g of
            [] \<Rightarrow> (Inl IndexError, (h, self), hist)
          | g0 # gs \<Rightarrow>
              let self1 = self\<lparr>intercept := Some (b - learning_rate * g0)\<rparr> in
              (case np_isub (mem h a) (map (\<lambda>v. learning_rate * v) gs) of
                 Inl e \<Rightarrow> (Inl e, (h, self1), hist)
               | Inr w \<Rightarrow>
                   let h1 = put h a w;
                       mse = 1 / real m * sum_list (map (\<lambda>e. e ^ 2) err);
                       (h2, c) = alloc h1 (mem h1 a)
                   in (Inr (), (h2, self1),
                       (loss_history @ [mse], w_history @ [c],
                        b_history @ [b - learning_rate * g0])))))))
     | _ \<Rightarrow> (Inl TypeError, (h, self), hist))"

fun gd_loop ::
  "real array2 \<Rightarrow> real list \<Rightarrow> real \<Rightarrow> nat \<Rightarrow> state \<times> history \<Rightarrow> unit result \<times> state \<times> history" where
  "gd_loop X y learning_rate 0 st = (Inr (), st)"
| "gd_loop X y learning_rate (Suc n) st =
     (case gd_iteration X y learning_rate st of
        (Inl e, st') \<Rightarrow> (Inl e, st')
      | (Inr _, st') \<Rightarrow> gd_loop X y learning_rate n st')"

definition fit_gradient_descent ::
  "(nat \<Rightarrow> real) \<Rightarrow> real array2 \<Rightarrow> real list \<Rightarrow> real \<Rightarrow> int \<Rightarrow> state
     \<Rightarrow> (real list \<times> real list \<times> nat list) result \<times> state" where
  \<comment> \<open>\<open>rand k\<close> is the \<open>k\<close>-th number drawn from \<^verbatim>\<open>np.random.rand\<close> by this call\<close>
  "fit_gradient_descent rand X y learning_rate iterations = (\<lambda>(h, self).
     if ncols X = 0 then (Inl (ValueError ''negative dimensions are not allowed''), (h, self))
     else
       let (h1, a) = alloc h (map (\<lambda>k. rand k * 0.01) [0..<ncols X - 1]);
           self1 = self\<lparr>coefficients := Some a\<rparr>;
           self2 = self1\<lparr>intercept := Some (rand (ncols X - 1) * 0.01)\<rparr>
       in case gd_loop X y learning_rate (nat iterations) ((h1, self2), ([], [], [])) of
            (Inl e, st, _) \<Rightarrow> (Inl e, st)
          | (Inr _, st, (loss_history, w_history, b_history)) \<Rightarrow>
              (Inr (loss_history, b_history, w_history), st))"

definition fit ::
  "(real array2 \<Rightarrow> real array2 result) \<Rightarrow> (nat \<Rightarrow> real) \<Rightarrow> real ndarray \<Rightarrow> real list \<Rightarrow> string
     \<Rightarrow> real \<Rightarrow> int \<Rightarrow> state \<Rightarrow> (real list \<times> real list \<times> nat list) option result \<times> state" where
  "fit linalg_inv rand X y method learning_rate iterations = (\<lambda>(h, self).
     if method \<notin> set [''least_squares'', ''gradient_descent'']
     then (Inl (ValueError (''Method '' @ method @ '' not available for training linear regression.'')),
           (h, self))
     else
       let X2 = (case X of A1 xs \<Rightarrow> reshape_column xs | A2 M \<Rightarrow> M) in
       case np_hstack2 (np_ones (nrows X2) 1) X2 of
         Inl e \<Rightarrow> (Inl e, (h, self))
       | Inr X_with_bias \<Rightarrow>
           if method = ''least_squares''
           then (case fit_multiple linalg_inv X_with_bias y (h, self) of
                   (Inl e, st) \<Rightarrow> (Inl e, st)
                 | (Inr _, st) \<Rightarrow> (Inr None, st))
           else if method = ''gradient_descent''
           then (case fit_gradient_descent rand X_with_bias y learning_rate iterations (h, self) of
                   (Inl e, st) \<Rightarrow> (Inl e, st)
                 | (Inr t, st) \<Rightarrow> (Inr (Some t), st))
           else (Inr None, (h, self)))"

definition predict :: "real ndarray \<Rightarrow> state \<Rightarrow> real list result \<times> state" where
  "predict X = (\<lambda>(h, self).
     if coefficients self = None \<or> intercept self = None
     then (Inl (ValueError ''Model is not yet fitted''), (h, self))
     else
       (case (intercept self, coefficients self) of
          (Some b, Some a) \<Rightarrow>
            (case X of
               A1 xs \<Rightarrow>
                 (case np_multiply (mem h a) xs of
                    Inl e \<Rightarrow> (Inl e, (h, self))
                  | Inr p \<Rightarrow> (Inr (map (\<lambda>v. b + v) p), (h, self)))
             | A2 M \<Rightarrow>
                 (case np_dot_mv M (mem h a) of
                    Inl e \<Rightarrow> (Inl e, (h, self))
                  | Inr p \<Rightarrow> (Inr (map (\<lambda>v. b + v) p), (h, self))))
        | _ \<Rightarrow> (Inl (ValueError ''Model is not yet fitted''), (h, self))))"

section \<open>evaluate_regression\<close>

text \<open>
  The arrays of \<^verbatim>\<open>evaluate_regression\<close> are float64 or int64 arrays, and the claims about
  it are about exact values, so its arithmetic is that of the machine. A float64 is a
  real number that binary64 represents, an infinity or \<open>NaN\<close>; the two zeros are one value:
  they compare equal, and the only divisors of this function that can be zero are a
  count and a sum of squares, neither of which is the negative zero. Every operation of IEEE 754 returns the exact
  result rounded to the nearest float64, ties to the even significand: \<open>fl\<close>. A quotient
  of floats does not raise when the divisor is zero; the quotient
  \<^verbatim>\<open>1/y_true.shape[0]\<close> is one of Python integers, correctly rounded, and raises
  \<open>ZeroDivisionError\<close>. Arithmetic on int64 wraps around.
\<close>

datatype float64 = Fin real | PosInf | NegInf | NaN

definition rne :: "real \<Rightarrow> int" where
  \<comment> \<open>the nearest integer, the even one of two nearest\<close>
  "rne y =
     (let f = \<lfloor>y\<rfloor>; d = y - of_int f
      in if d < 1 / 2 then f else if 1 / 2 < d then f + 1 else if even f then f else f + 1)"

definition fl :: "real \<Rightarrow> float64" where
  \<comment> \<open>rounding to binary64: 53 significant bits, least exponent \<open>-1074\<close>, overflow at \<open>2^1024\<close>\<close>
  "fl x =
     (if x = 0 then Fin 0
      else
        let e = max (\<lfloor>log 2 \<bar>x\<bar>\<rfloor> - 52) (- 1074);
            r = of_int (rne (x / 2 powr of_int e)) * 2 powr of_int e
        in if 2 ^ 1024 \<le> \<bar>r\<bar> then (if 0 < x then PosInf else NegInf) else Fin r)"

fun fneg :: "float64 \<Rightarrow> float64" where
  "fneg (Fin x) = Fin (- x)"
| "fneg PosInf = NegInf"
| "fneg NegInf = PosInf"
| "fneg NaN = NaN"

fun fadd :: "float64 \<Rightarrow> float64 \<Rightarrow> float64" where
  "fadd (Fin x) (Fin y) = fl (x + y)"
| "fadd NaN b = NaN"
| "fadd a NaN = NaN"
| "fadd PosInf NegInf = NaN"
| "fadd NegInf PosInf = NaN"
| "fadd PosInf b = PosInf"
| "fadd NegInf b = NegInf"
| "fadd a PosInf = PosInf"
| "fadd a NegInf = NegInf"

definition fsub :: "float64 \<Rightarrow> float64 \<Rightarrow> float64" where
  "fsub a b = fadd a (fneg b)"

definition signed_inf :: "real \<Rightarrow> float64" where
  "signed_inf s = (if s = 0 then NaN else if 0 < s then PosInf else NegInf)"

fun fmul :: "float64 \<Rightarrow> float64 \<Rightarrow> float64" where
  "fmul (Fin x) (Fin y) = fl (x * y)"
| "fmul NaN b = NaN"
| "fmul a NaN = NaN"
| "fmul PosInf (Fin y) = signed_inf y"
| "fmul NegInf (Fin y) = signed_inf (- y)"
| "fmul (Fin x) PosInf = signed_inf x"
| "fmul (Fin x) NegInf = signed_inf (- x)"
| "fmul PosInf PosInf = PosInf"
| "fmul PosInf NegInf = NegInf"
| "fmul NegInf PosInf = NegInf"
| "fmul NegInf NegInf = PosInf"

fun fdiv :: "float64 \<Rightarrow> float64 \<Rightarrow> float64" where
  "fdiv (Fin x) (Fin y) = (if y = 0 then signed_inf x else fl (x / y))"
| "fdiv NaN b = NaN"
| "fdiv a NaN = NaN"
| "fdiv (Fin x) b = Fin 0"
| "fdiv PosInf (Fin y) = (if y < 0 then NegInf else PosInf)"
| "fdiv NegInf (Fin y) = (if y < 0 then PosInf else NegInf)"
| "fdiv a b = NaN"

fun fsqrt :: "float64 \<Rightarrow> float64" where
  "fsqrt (Fin x) = (if x < 0 then NaN else fl (sqrt x))"
| "fsqrt PosInf = PosInf"
| "fsqrt NegInf = NaN"
| "fsqrt NaN = NaN"

fun fabs :: "float64 \<Rightarrow> float64" where
  "fabs (Fin x) = Fin \<bar>x\<bar>"
| "fabs PosInf = PosInf"
| "fabs NegInf = PosInf"
| "fabs NaN = NaN"

text \<open>
  A one-dimensional array of one of the two dtypes. Where an int64 meets a float64 the
  int64 is converted, rounded to the nearest float64.
\<close>

datatype vec = F64 "float64 list" | I64 "64 word list"

definition of_int64 :: "64 word \<Rightarrow> float64" where
  "of_int64 w = fl (real_of_int (sint w))"

definition abs_int64 :: "64 word \<Rightarrow> 64 word" where
  "abs_int64 w = (if sint w < 0 then - w else w)"

fun vlen :: "vec \<Rightarrow> nat" where
  "vlen (F64 xs) = length xs"
| "vlen (I64 ws) = length ws"

fun to_f64 :: "vec \<Rightarrow> float64 list" where
  "to_f64 (F64 xs) = xs"
| "to_f64 (I64 ws) = map of_int64 ws"

definition np_broadcast2 :: "('a \<Rightarrow> 'a \<Rightarrow> 'b) \<Rightarrow> 'a list \<Rightarrow> 'a list \<Rightarrow> 'b list result" where
  \<comment> \<open>an elementwise operation on two one-dimensional arrays, a length-one operand broadcast\<close>
  "np_broadcast2 f xs ys =
     (if length xs = length ys then Inr (map2 f xs ys)
      else (case ys of
              [b] \<Rightarrow> Inr (map (\<lambda>x. f x b) xs)
            | _ \<Rightarrow> (case xs of
                      [a] \<Rightarrow> Inr (map (\<lambda>y. f a y) ys)
                    | _ \<Rightarrow> Inl (ValueError ''operands could not be broadcast together''))))"

fun vec_subtract :: "vec \<Rightarrow> vec \<Rightarrow> vec result" where
  "vec_subtract (I64 a) (I64 b) =
     (case np_broadcast2 (-) a b of Inl e \<Rightarrow> Inl e | Inr d \<Rightarrow> Inr (I64 d))"
| "vec_subtract u v =
     (case np_broadcast2 fsub (to_f64 u) (to_f64 v) of Inl e \<Rightarrow> Inl e | Inr d \<Rightarrow> Inr (F64 d))"

fun vec_square :: "vec \<Rightarrow> vec" where
  "vec_square (F64 xs) = F64 (map (\<lambda>v. fmul v v) xs)"
| "vec_square (I64 ws) = I64 (map (\<lambda>w. w * w) ws)"

fun vec_abs :: "vec \<Rightarrow> vec" where
  "vec_abs (F64 xs) = F64 (map fabs xs)"
| "vec_abs (I64 ws) = I64 (map abs_int64 ws)"

fun vec_sum :: "(float64 list \<Rightarrow> float64) \<Rightarrow> vec \<Rightarrow> float64" where
  \<comment> \<open>\<^verbatim>\<open>np.sum\<close>, as the float64 that the scalar is in the float arithmetic that follows\<close>
  "vec_sum np_sum (F64 xs) = np_sum xs"
| "vec_sum np_sum (I64 ws) = of_int64 (sum_list ws)"

fun vec_mean ::
  "(float64 list \<Rightarrow> float64) \<Rightarrow> (64 word list \<Rightarrow> float64) \<Rightarrow> vec \<Rightarrow> float64" where
  \<comment> \<open>\<^verbatim>\<open>y.mean()\<close>: the float64 sum over the count; the sum of an int64 array is taken in
      float64, by a reduction of the library that converts as it adds\<close>
  "vec_mean np_sum np_sum_cast (F64 xs) = fdiv (np_sum xs) (fl (real (length xs)))"
| "vec_mean np_sum np_sum_cast (I64 ws) = fdiv (np_sum_cast ws) (fl (real (length ws)))"

definition evaluate_regression ::
  "(float64 list \<Rightarrow> float64) \<Rightarrow> (64 word list \<Rightarrow> float64) \<Rightarrow> vec \<Rightarrow> vec \<Rightarrow>
   (string \<rightharpoonup> float64) result" where
  \<comment> \<open>\<open>np_sum\<close> and \<open>np_sum_cast\<close> are the float64 sums of the numeric library, of a float64 and
      of an int64 array, which add in an order of their own\<close>
  "evaluate_regression np_sum np_sum_cast y_true y_pred =
     (case vec_subtract y_true y_pred of
        Inl e \<Rightarrow> Inl e
      | Inr d \<Rightarrow>
          let rss = vec_sum np_sum (vec_square d);
              mean = vec_mean np_sum np_sum_cast y_true;
              tss = np_sum (map (\<lambda>v. fmul (fsub v mean) (fsub v mean)) (to_f64 y_true));
              r_squared = fsub (Fin 1) (fdiv rss tss)
          in if vlen y_true = 0 then Inl ZeroDivisionError
             else
               let mse = fmul (fl (1 / real (vlen y_true))) (vec_sum np_sum (vec_square d));
                   rmse = fsqrt mse;
                   mae = fmul (fl (1 / real (vlen y_true))) (vec_sum np_sum (vec_abs d))
               in Inr (map_of [(''R2'', r_squared), (''RMSE'', rmse), (''MAE'', mae)]))"

text \<open>
  The float64 sum that adds from left to right, starting from zero, and what every sum of
  the library does: a sum of zeros is zero.
\<close>

definition seq_sum :: "float64 list \<Rightarrow> float64" where
  "seq_sum xs = foldl fadd (Fin 0) xs"

definition seq_sum_cast :: "64 word list \<Rightarrow> float64" where
  "seq_sum_cast ws = seq_sum (map of_int64 ws)"

definition sums_zeros :: "(float64 list \<Rightarrow> float64) \<Rightarrow> bool" where
  "sums_zeros np_sum = (\<forall>zs. list_all (\<lambda>z. z = Fin 0) zs \<longrightarrow> np_sum zs = Fin 0)"

text \<open>
  The quantities of the specification in this arithmetic: the residual and the total sum
  of squares and the sum of absolute residuals.
\<close>

definition residual_ss :: "(float64 list \<Rightarrow> float64) \<Rightarrow> vec \<Rightarrow> vec \<Rightarrow> float64" where
  "residual_ss np_sum y_true y_pred =
     (case vec_subtract y_true y_pred of
        Inl e \<Rightarrow> NaN
      | Inr d \<Rightarrow> vec_sum np_sum (vec_square d))"

definition residual_sa :: "(float64 list \<Rightarrow> float64) \<Rightarrow> vec \<Rightarrow> vec \<Rightarrow> float64" where
  "residual_sa np_sum y_true y_pred =
     (case vec_subtract y_true y_pred of
        Inl e \<Rightarrow> NaN
      | Inr d \<Rightarrow> vec_sum np_sum (vec_abs d))"

definition total_ss ::
  "(float64 list \<Rightarrow> float64) \<Rightarrow> (64 word list \<Rightarrow> float64) \<Rightarrow> vec \<Rightarrow> float64" where
  "total_ss np_sum np_sum_cast y_true =
     np_sum (map (\<lambda>v. fmul (fsub v (vec_mean np_sum np_sum_cast y_true))
                         (fsub v (vec_mean np_sum np_sum_cast y_true)))
               (to_f64 y_true))"

fun all_finite :: "vec \<Rightarrow> bool" where
  "all_finite (F64 xs) = list_all (\<lambda>v. case v of Fin x \<Rightarrow> True | _ \<Rightarrow> False) xs"
| "all_finite (I64 ws) = True"

text \<open>
  The vector \<open>[0, 2\<^sup>-\<^sup>6\<^sup>0\<^sup>0]\<close>, which is not constant and whose squared deviations from the mean
  are below the least positive float64, and the vector \<open>[0, 1]\<close>.
\<close>

definition tiny_pair :: vec where
  "tiny_pair = F64 [Fin 0, Fin (2 powr - 600)]"

definition unit_pair :: vec where
  "unit_pair = F64 [Fin 0, Fin 1]"

section \<open>one_hot_encode\<close>

text \<open>
  A cell of the array is a number or a text; a number is its value, so the integer 1 and
  the float 1.0 are one cell. The array has the dtype of the numeric library: \<open>Number\<close>
  (int64 or float64, all cells numbers), \<open>Text\<close> (all cells text) or \<open>Object\<close> (each cell a
  Python object, number or text). \<^verbatim>\<open>np.unique\<close> sorts the column and keeps one of each
  run of equal values; sorting a column that holds both numbers and text raises
  \<open>TypeError\<close>. A column index is a Python integer: a negative one counts from the end,
  in an index and in a slice bound. Copies, deletions and slices keep the dtype;
  \<^verbatim>\<open>np.hstack\<close> converts its blocks to the dtype they promote to. Every array that
  \<^verbatim>\<open>X_transformed\<close> is bound to is an object of the store.
\<close>

datatype cell = Num real | Str string

datatype dtype = Number | Text | Object

datatype tarray = TArray (dtype_of: dtype) (cells_of: "cell array2")

definition well_typed :: "tarray \<Rightarrow> bool" where
  "well_typed A =
     (case dtype_of A of
        Number \<Rightarrow> list_all (list_all (\<lambda>c. case c of Num x \<Rightarrow> True | Str s \<Rightarrow> False)) (rows (cells_of A))
      | Text \<Rightarrow> list_all (list_all (\<lambda>c. case c of Num x \<Rightarrow> False | Str s \<Rightarrow> True)) (rows (cells_of A))
      | Object \<Rightarrow> True)"

fun str_of_nat :: "nat \<Rightarrow> string" where
  "str_of_nat n =
     (if n < 10 then [''0123456789'' ! n]
      else str_of_nat (n div 10) @ [''0123456789'' ! (n mod 10)])"

declare str_of_nat.simps [simp del]

definition str_of_int :: "int \<Rightarrow> string" where
  \<comment> \<open>\<^verbatim>\<open>str(i)\<close> of an integer\<close>
  "str_of_int i = (if i < 0 then CHR ''-'' # str_of_nat (nat (- i)) else str_of_nat (nat i))"

definition astype_of :: "dtype \<Rightarrow> int \<Rightarrow> cell" where
  \<comment> \<open>the cell that an int64 value becomes in an array of the dtype\<close>
  "astype_of dt i = (case dt of Text \<Rightarrow> Str (str_of_int i) | Number \<Rightarrow> Num (of_int i) | Object \<Rightarrow> Num (of_int i))"

definition nums :: "cell list \<Rightarrow> real list" where
  "nums col = concat (map (\<lambda>c. case c of Num x \<Rightarrow> [x] | Str s \<Rightarrow> []) col)"

definition strs :: "cell list \<Rightarrow> string list" where
  "strs col = concat (map (\<lambda>c. case c of Num x \<Rightarrow> [] | Str s \<Rightarrow> [s]) col)"

definition np_unique :: "cell list \<Rightarrow> cell list result" where
  "np_unique col =
     (if strs col = [] then Inr (map Num (remdups_adj (sort (nums col))))
      else if nums col = [] then Inr (map Str (remdups_adj (sort (strs col))))
      else Inl TypeError)"

definition py_index :: "int \<Rightarrow> nat \<Rightarrow> nat result" where
  "py_index i n =
     (if 0 \<le> i \<and> i < int n then Inr (nat i)
      else if - int n \<le> i \<and> i < 0 then Inr (nat (int n + i))
      else Inl IndexError)"

definition slice_bound :: "int \<Rightarrow> nat \<Rightarrow> nat" where
  "slice_bound i n = (if i < 0 then nat (int n + i) else min (nat i) n)"

definition np_column :: "tarray \<Rightarrow> int \<Rightarrow> cell list result" where
  \<comment> \<open>\<^verbatim>\<open>A[:, index]\<close>\<close>
  "np_column A index =
     (case py_index index (ncols (cells_of A)) of
        Inl e \<Rightarrow> Inl e
      | Inr j \<Rightarrow> Inr (column (cells_of A) j))"

definition np_delete :: "tarray \<Rightarrow> int \<Rightarrow> tarray result" where
  \<comment> \<open>\<^verbatim>\<open>np.delete(A, index, axis=1)\<close>\<close>
  "np_delete A index =
     (case py_index index (ncols (cells_of A)) of
        Inl e \<Rightarrow> Inl e
      | Inr j \<Rightarrow>
          Inr (TArray (dtype_of A)
                 (Array2 (ncols (cells_of A) - 1)
                    (map (\<lambda>r. take j r @ drop (Suc j) r) (rows (cells_of A))))))"

definition cols_upto :: "tarray \<Rightarrow> int \<Rightarrow> tarray" where
  \<comment> \<open>\<^verbatim>\<open>A[:, :index]\<close>\<close>
  "cols_upto A index =
     (let k = slice_bound index (ncols (cells_of A))
      in TArray (dtype_of A) (Array2 k (map (take k) (rows (cells_of A)))))"

definition cols_from :: "tarray \<Rightarrow> int \<Rightarrow> tarray" where
  \<comment> \<open>\<^verbatim>\<open>A[:, index:]\<close>\<close>
  "cols_from A index =
     (let k = slice_bound index (ncols (cells_of A))
      in TArray (dtype_of A)
           (Array2 (ncols (cells_of A) - k) (map (drop k) (rows (cells_of A)))))"

definition indicator :: "cell list \<Rightarrow> cell list \<Rightarrow> int array2" where
  \<comment> \<open>\<^verbatim>\<open>(categorical_column[:,None] == unique_values).astype(int)\<close>, an int64 array\<close>
  "indicator categorical_column unique_values =
     Array2 (length unique_values)
       (map (\<lambda>x. map (\<lambda>v. if x = v then 1 else 0) unique_values) categorical_column)"

definition np_hstack3 :: "tarray \<Rightarrow> int array2 \<Rightarrow> tarray \<Rightarrow> tarray result" where
  \<comment> \<open>\<^verbatim>\<open>np.hstack((A, Ind, B))\<close> of two slices \<open>A\<close>, \<open>B\<close> of one array around the int64 block
      \<open>Ind\<close>: the dtype of the slices and int64 promote to the dtype of the slices (int64 to
      float64 among numbers), and the int64 values are converted to it\<close>
  "np_hstack3 A Ind B =
     (if nrows (cells_of A) = nrows Ind \<and> nrows Ind = nrows (cells_of B)
      then Inr (TArray (dtype_of A)
                  (Array2 (ncols (cells_of A) + ncols Ind + ncols (cells_of B))
                     (map (\<lambda>(a, b, c). a @ map (astype_of (dtype_of A)) b @ c)
                        (zip (rows (cells_of A)) (zip (rows Ind) (rows (cells_of B)))))))
      else Inl (ValueError ''all the input array dimensions except for the concatenation axis must match exactly''))"

fun one_hot_loop :: "tarray heap \<Rightarrow> nat \<Rightarrow> int list \<Rightarrow> bool \<Rightarrow> nat result \<times> tarray heap" where
  "one_hot_loop h X_transformed [] drop_first = (Inr X_transformed, h)"
| "one_hot_loop h X_transformed (index # rest) drop_first =
     (case np_column (mem h X_transformed) index of
        Inl e \<Rightarrow> (Inl e, h)
      | Inr categorical_column \<Rightarrow>
     (case np_unique categorical_column of
        Inl e \<Rightarrow> (Inl e, h)
      | Inr u \<Rightarrow>
          let unique_values = (if drop_first then drop 1 u else u);
              one_hot = indicator categorical_column unique_values
          in
     (case np_delete (mem h X_transformed) index of
        Inl e \<Rightarrow> (Inl e, h)
      | Inr D \<Rightarrow>
          let (h1, X_deleted) = alloc h D in
     (case np_hstack3 (cols_upto (mem h1 X_deleted) index) one_hot
                      (cols_from (mem h1 X_deleted) index) of
        Inl e \<Rightarrow> (Inl e, h1)
      | Inr H \<Rightarrow>
          let (h2, X_stacked) = alloc h1 H in
          one_hot_loop h2 X_stacked rest drop_first))))"

definition one_hot_encode :: "tarray heap \<Rightarrow> nat \<Rightarrow> int list \<Rightarrow> bool \<Rightarrow> nat result \<times> tarray heap" where
  "one_hot_encode h X categorical_indices drop_first =
     (let (h1, X_transformed) = alloc h (mem h X) in
      one_hot_loop h1 X_transformed (rev (sort categorical_indices)) drop_first)"

text \<open>
  The value that \<^verbatim>\<open>X_transformed\<close> is bound to after one iteration and after the loop, without
  the store: the proofs about the layout go through these.
\<close>

definition one_hot_step :: "tarray \<Rightarrow> int \<Rightarrow> bool \<Rightarrow> tarray result" where
  "one_hot_step A index drop_first =
     (case np_column A index of
        Inl e \<Rightarrow> Inl e
      | Inr categorical_column \<Rightarrow>
     (case np_unique categorical_column of
        Inl e \<Rightarrow> Inl e
      | Inr u \<Rightarrow>
     (case np_delete A index of
        Inl e \<Rightarrow> Inl e
      | Inr D \<Rightarrow>
          np_hstack3 (cols_upto D index)
            (indicator categorical_column (if drop_first then drop 1 u else u))
            (cols_from D index))))"

fun one_hot_values :: "tarray \<Rightarrow> int list \<Rightarrow> bool \<Rightarrow> tarray result" where
  "one_hot_values A [] drop_first = Inr A"
| "one_hot_values A (index # rest) drop_first =
     (case one_hot_step A index drop_first of
        Inl e \<Rightarrow> Inl e
      | Inr B \<Rightarrow> one_hot_values B rest drop_first)"

text \<open>
  The layout of the specification: the labels of a column are its distinct values in
  ascending order, a categorical cell becomes one indicator per label, the integer 1 or 0
  as a cell of the dtype of the array, and a row is encoded cell by cell, from left to
  right.
\<close>

definition label_domain :: "cell list \<Rightarrow> cell list" where
  "label_domain col =
     map Num (sorted_list_of_set (set (nums col))) @ map Str (sorted_list_of_set (set (strs col)))"

definition homogeneous :: "cell list \<Rightarrow> bool" where
  "homogeneous col = (nums col = [] \<or> strs col = [])"

definition labels_of :: "cell array2 \<Rightarrow> bool \<Rightarrow> nat \<Rightarrow> cell list" where
  "labels_of X drop_first j =
     (let u = label_domain (column X j) in if drop_first then tl u else u)"

definition encode_cell :: "dtype \<Rightarrow> cell list \<Rightarrow> cell \<Rightarrow> cell list" where
  "encode_cell dt labels x = map (\<lambda>v. astype_of dt (if x = v then 1 else 0)) labels"

definition encode_row :: "dtype \<Rightarrow> cell array2 \<Rightarrow> nat set \<Rightarrow> bool \<Rightarrow> cell list \<Rightarrow> cell list" where
  "encode_row dt X S drop_first r =
     concat (map (\<lambda>j. if j \<in> S then encode_cell dt (labels_of X drop_first j) (r ! j) else [r ! j])
               [0..<ncols X])"

definition encoded_width :: "cell array2 \<Rightarrow> nat set \<Rightarrow> bool \<Rightarrow> nat" where
  "encoded_width X S drop_first =
     (\<Sum>j\<leftarrow>[0..<ncols X]. if j \<in> S then length (labels_of X drop_first j) else 1)"

text \<open>
  The column count as the specification states it, over the integers, and the same count
  with the term of each categorical column bounded below by zero.
\<close>

definition spec_column_count :: "cell array2 \<Rightarrow> int list \<Rightarrow> bool \<Rightarrow> int" where
  "spec_column_count X categorical_indices drop_first =
     (int (ncols X) - int (length categorical_indices)) +
     (\<Sum>i\<leftarrow>categorical_indices.
        int (card (set (column X (nat i)))) - (if drop_first then 1 else 0))"

definition column_count :: "cell array2 \<Rightarrow> int list \<Rightarrow> bool \<Rightarrow> int" where
  "column_count X categorical_indices drop_first =
     (int (ncols X) - int (length categorical_indices)) +
     (\<Sum>i\<leftarrow>categorical_indices.
        max 0 (int (card (set (column X (nat i)))) - (if drop_first then 1 else 0)))"

text \<open>
  The example of the specification as an object array and as the text array that
  \<^verbatim>\<open>np.array\<close> makes of the same nested list, each the first object of a store, and a
  number array with one column and no rows.
\<close>

definition example_X :: "cell array2" where
  "example_X = Array2 2 [[Num 1, Str ''a''], [Num 2, Str ''b''], [Num 3, Str ''a'']]"

definition example_text_X :: "cell array2" where
  "example_text_X = Array2 2 [[Str ''1'', Str ''a''], [Str ''2'', Str ''b''], [Str ''3'', Str ''a'']]"

definition example_heap :: "tarray heap" where
  "example_heap = fst (alloc (new_heap (TArray Object (Array2 0 []))) (TArray Object example_X))"

definition example_text_heap :: "tarray heap" where
  "example_text_heap = fst (alloc (new_heap (TArray Object (Array2 0 []))) (TArray Text example_text_X))"

definition empty_rows_heap :: "tarray heap" where
  "empty_rows_heap = fst (alloc (new_heap (TArray Object (Array2 0 []))) (TArray Number (Array2 1 [])))"

text \<open>
  The normal equation of the specification, entry by entry: the bias-augmented matrix,
  its product with its own transpose, what it is for a matrix to be the inverse of
  another, and the weights \<open>(M X\<^sup>T) y\<close>.
\<close>

definition design_matrix :: "real ndarray \<Rightarrow> real array2" where
  "design_matrix X = (case X of A1 xs \<Rightarrow> Array2 1 (map (\<lambda>x. [x]) xs) | A2 M \<Rightarrow> M)"

definition bias_augmented :: "real array2 \<Rightarrow> real array2" where
  "bias_augmented M = Array2 (Suc (ncols M)) (map (\<lambda>r. 1 # r) (rows M))"

definition gram :: "real array2 \<Rightarrow> real array2" where
  "gram B = Array2 (ncols B)
     (map (\<lambda>j. map (\<lambda>k. \<Sum>i<nrows B. rows B ! i ! j * rows B ! i ! k) [0..<ncols B]) [0..<ncols B])"

definition is_inverse :: "real array2 \<Rightarrow> real array2 \<Rightarrow> bool" where
  "is_inverse A M =
     (wf_array2 M \<and> ncols M = ncols A \<and> nrows M = nrows A \<and> nrows A = ncols A \<and>
      list_all (\<lambda>j. list_all (\<lambda>k.
          (\<Sum>l<ncols A. rows M ! j ! l * rows A ! l ! k) = (if j = k then 1 else 0) \<and>
          (\<Sum>l<ncols A. rows A ! j ! l * rows M ! l ! k) = (if j = k then 1 else 0))
        [0..<ncols A]) [0..<ncols A])"

definition normal_equation_weights :: "real array2 \<Rightarrow> real array2 \<Rightarrow> real list \<Rightarrow> real list" where
  "normal_equation_weights M B y =
     map (\<lambda>j. \<Sum>i<nrows B. (\<Sum>k<ncols B. rows M ! j ! k * rows B ! i ! k) * y ! i) [0..<ncols B]"

text \<open>
  An inverse routine that knows the inverse of one matrix, for the example \<open>y = 1 + 2 x\<close>.
\<close>

definition example_inv :: "real array2 \<Rightarrow> real array2 result" where
  "example_inv A =
     (if A = Array2 2 [[2, 1], [1, 1]] then Inr (Array2 2 [[1, - 1], [- 1, 2]]) else Inl LinAlgError)"

text \<open>
  The update of the specification, entry by entry: the predictions \<open>X [b, w]\<close>, the error
  against \<open>y\<close>, the gradient \<open>(1/m) X\<^sup>T error\<close> and the mean squared error, with \<open>m\<close> the
  row count. \<open>gd_start\<close> is the state in which \<^verbatim>\<open>fit_gradient_descent\<close> enters its loop.
\<close>

definition spec_predictions :: "real array2 \<Rightarrow> real \<Rightarrow> real list \<Rightarrow> real list" where
  "spec_predictions B b w =
     map (\<lambda>i. \<Sum>k<ncols B. rows B ! i ! k * (b # w) ! k) [0..<nrows B]"

definition spec_error :: "real array2 \<Rightarrow> real list \<Rightarrow> real \<Rightarrow> real list \<Rightarrow> real list" where
  "spec_error B y b w = map (\<lambda>i. spec_predictions B b w ! i - y ! i) [0..<nrows B]"

definition spec_gradient :: "real array2 \<Rightarrow> real list \<Rightarrow> real \<Rightarrow> real list \<Rightarrow> real list" where
  "spec_gradient B y b w =
     map (\<lambda>j. (1 / real (nrows B)) * (\<Sum>i<nrows B. rows B ! i ! j * spec_error B y b w ! i))
       [0..<ncols B]"

definition spec_mse :: "real array2 \<Rightarrow> real list \<Rightarrow> real \<Rightarrow> real list \<Rightarrow> real" where
  "spec_mse B y b w = (1 / real (nrows B)) * (\<Sum>i<nrows B. (spec_error B y b w ! i) ^ 2)"

definition gd_start :: "(nat \<Rightarrow> real) \<Rightarrow> real array2 \<Rightarrow> state \<Rightarrow> state \<times> history" where
  "gd_start rand X = (\<lambda>(h, self).
     let (h1, a) = alloc h (map (\<lambda>k. rand k * 0.01) [0..<ncols X - 1]);
         self1 = self\<lparr>coefficients := Some a\<rparr>;
         self2 = self1\<lparr>intercept := Some (rand (ncols X - 1) * 0.01)\<rparr>
     in ((h1, self2), ([], [], [])))"

text \<open>The bias-augmented matrix of the two observations \<open>x = 0\<close> and \<open>x = 1\<close>.\<close>

definition example_B :: "real array2" where
  "example_B = Array2 2 [[1, 0], [1, 1]]"

section \<open>Unknown method names and unfitted models\<close>

text \<open>
  C7. For every \<open>X\<close>, \<open>y\<close> and every method name other than \<open>least_squares\<close> and
  \<open>gradient_descent\<close>, \<open>fit\<close> raises the \<open>ValueError\<close> of the unknown method and leaves the
  store and the object, hence \<open>intercept\<close> and \<open>coefficients\<close>, exactly as they were.
\<close>

theorem fit_invalid_method:
  assumes "method \<noteq> ''least_squares''" and "method \<noteq> ''gradient_descent''"
  shows "fit linalg_inv rand X y method learning_rate iterations (h, self) =
           (Inl (ValueError (''Method '' @ method @ '' not available for training linear regression.'')),
            (h, self))"
  using assms by (simp add: fit_def)

theorem fit_invalid_method_witness:
  "''ridge'' \<noteq> ''least_squares'' \<and> ''ridge'' \<noteq> ''gradient_descent'' \<and>
   fit (\<lambda>M. Inl LinAlgError) (\<lambda>k. 0) (A1 [1, 2]) [3, 4] ''ridge'' 0.01 1000
       (new_heap [], init) =
     (Inl (ValueError ''Method ridge not available for training linear regression.''),
      (new_heap [], init)) \<and>
   coefficients init = None \<and> intercept init = None"
  using fit_invalid_method [of "''ridge''" "\<lambda>M. Inl LinAlgError" "\<lambda>k. 0" "A1 [1, 2]" "[3, 4]"
      "0.01" 1000 "new_heap []" init]
  by (simp add: init_def)

text \<open>
  C8. For every \<open>X\<close>, \<open>predict\<close> on an object whose \<open>intercept\<close> or \<open>coefficients\<close> is
  \<open>None\<close> raises the \<open>ValueError\<close> of the unfitted model and leaves the store and the
  object as they were.
\<close>

theorem predict_not_fitted:
  assumes "intercept self = None \<or> coefficients self = None"
  shows "predict X (h, self) = (Inl (ValueError ''Model is not yet fitted''), (h, self))"
  using assms by (auto simp: predict_def)

theorem predict_not_fitted_witness:
  "(intercept init = None \<or> coefficients init = None) \<and>
   predict (A2 (Array2 1 [[1], [2]])) (new_heap [], init) =
     (Inl (ValueError ''Model is not yet fitted''), (new_heap [], init))"
  using predict_not_fitted [of init "A2 (Array2 1 [[1], [2]])" "new_heap []"]
  by (simp add: init_def)

section \<open>One-dimensional input of fit\<close>

text \<open>
  C9. \<open>fit\<close> on a one-dimensional \<open>X\<close> fits the matrix that has one column and one row
  per element of \<open>X\<close>: with \<open>least_squares\<close> it is \<open>fit_multiple\<close> on the rows \<open>[1, x]\<close>
  and returns \<open>None\<close>, with \<open>gradient_descent\<close> it is \<open>fit_gradient_descent\<close> on the
  same rows and returns its histories, and for every method, every other argument and
  every state it is \<open>fit\<close> on the matrix with the rows \<open>[x]\<close>. On the flat sequence
  \<open>[0, 1]\<close> with \<open>y = [1, 3]\<close> the least-squares fit finds the line \<open>y = 1 + 2 x\<close>, and one
  step of gradient descent from zero with learning rate \<open>1/2\<close> moves to intercept 1 and
  coefficient \<open>3/4\<close>.
\<close>

theorem fit_flat_sequence:
  "fit linalg_inv rand (A1 xs) y ''least_squares'' learning_rate iterations st =
     (case fit_multiple linalg_inv (Array2 2 (map (\<lambda>x. [1, x]) xs)) y st of
        (Inl e, st') \<Rightarrow> (Inl e, st')
      | (Inr u, st') \<Rightarrow> (Inr None, st')) \<and>
   fit linalg_inv rand (A1 xs) y ''gradient_descent'' learning_rate iterations st =
     (case fit_gradient_descent rand (Array2 2 (map (\<lambda>x. [1, x]) xs)) y learning_rate iterations st of
        (Inl e, st') \<Rightarrow> (Inl e, st')
      | (Inr t, st') \<Rightarrow> (Inr (Some t), st')) \<and>
   fit linalg_inv rand (A1 xs) y method learning_rate iterations st =
     fit linalg_inv rand (A2 (Array2 1 (map (\<lambda>x. [x]) xs))) y method learning_rate iterations st \<and>
   fit example_inv (\<lambda>k. 0) (A1 [0, 1]) [1, 3] ''least_squares'' (1 / 2) 1 (new_heap [], init) =
     (Inr None, (fst (alloc (new_heap []) [2]), \<lparr>coefficients = Some 0, intercept = Some 1\<rparr>)) \<and>
   fit example_inv (\<lambda>k. 0) (A1 [0, 1]) [1, 3] ''gradient_descent'' (1 / 2) 1 (new_heap [], init) =
     (Inr (Some ([5], [1], [1])),
      (\<lparr>mem = (\<lambda>a. [])(0 := [3 / 4], 1 := [3 / 4]), top = 2\<rparr>,
       \<lparr>coefficients = Some 0, intercept = Some 1\<rparr>))"
proof -
  have flat_ls:
    "fit example_inv (\<lambda>k. 0) (A1 [0, 1]) [1, 3] ''least_squares'' (1 / 2) 1 (new_heap [], init) =
       (Inr None, (fst (alloc (new_heap []) [2]), \<lparr>coefficients = Some 0, intercept = Some 1\<rparr>))"
    by (simp add: fit_def fit_multiple_def reshape_column_def np_hstack2_def np_ones_def nrows_def
        np_transpose_def column_def np_dot_mm_def np_dot_mv_def inner_def example_inv_def
        alloc_def new_heap_def init_def upt_rec numeral_2_eq_2)
  have flat_gd:
    "fit example_inv (\<lambda>k. 0) (A1 [0, 1]) [1, 3] ''gradient_descent'' (1 / 2) 1 (new_heap [], init) =
       (Inr (Some ([5], [1], [1])),
        (\<lparr>mem = (\<lambda>a. [])(0 := [3 / 4], 1 := [3 / 4]), top = 2\<rparr>,
         \<lparr>coefficients = Some 0, intercept = Some 1\<rparr>))"
    by (simp add: fit_def reshape_column_def np_hstack2_def np_ones_def
        fit_gradient_descent_def gd_iteration_def alloc_def put_def new_heap_def init_def
        np_dot_mv_def np_subtract_def np_isub_def np_transpose_def column_def inner_def nrows_def
        upt_rec numeral_2_eq_2 power2_eq_square)
  have stack: "np_hstack2 (np_ones (nrows (reshape_column xs)) 1) (reshape_column xs) =
                 Inr (Array2 2 (map (\<lambda>x. [1, x]) xs))"
  proof -
    have "map2 (@) (replicate (length zs) [1]) (map (\<lambda>x. [x]) zs) = map (\<lambda>x. [1, x]) zs"
      for zs :: "real list"
      by (induction zs) auto
    then show ?thesis
      by (simp add: np_hstack2_def np_ones_def nrows_def reshape_column_def)
  qed
  obtain h self where st: "st = (h, self)" by (cases st)
  have ls: "fit linalg_inv rand (A1 xs) y ''least_squares'' learning_rate iterations st =
     (case fit_multiple linalg_inv (Array2 2 (map (\<lambda>x. [1, x]) xs)) y st of
        (Inl e, st') \<Rightarrow> (Inl e, st')
      | (Inr u, st') \<Rightarrow> (Inr None, st'))"
    by (simp add: fit_def st Let_def stack [unfolded One_nat_def])
  have gd: "fit linalg_inv rand (A1 xs) y ''gradient_descent'' learning_rate iterations st =
     (case fit_gradient_descent rand (Array2 2 (map (\<lambda>x. [1, x]) xs)) y learning_rate iterations st of
        (Inl e, st') \<Rightarrow> (Inl e, st')
      | (Inr t, st') \<Rightarrow> (Inr (Some t), st'))"
    by (simp add: fit_def st Let_def stack [unfolded One_nat_def])
  have mx: "fit linalg_inv rand (A1 xs) y method learning_rate iterations st =
     fit linalg_inv rand (A2 (Array2 1 (map (\<lambda>x. [x]) xs))) y method learning_rate iterations st"
    by (simp add: fit_def reshape_column_def)
  show ?thesis using ls gd mx flat_ls flat_gd by (intro conjI)
qed

section \<open>The metrics of evaluate_regression\<close>

lemma rne_of_int: "rne (of_int n) = n"
  by (simp add: rne_def)

lemma rne_small: "0 \<le> y \<Longrightarrow> y < 1 / 2 \<Longrightarrow> rne y = 0"
proof -
  assume a: "0 \<le> y" "y < 1 / 2"
  then have "\<lfloor>y\<rfloor> = 0" by (simp add: floor_eq_iff)
  then show ?thesis using a by (simp add: rne_def)
qed

lemma rne_near: "\<bar>of_int (rne y) - y\<bar> \<le> 1"
proof -
  have "of_int \<lfloor>y\<rfloor> \<le> y" "y < of_int \<lfloor>y\<rfloor> + 1" by linarith+
  then show ?thesis by (auto simp: rne_def Let_def)
qed

lemma fl_zero: "fl 0 = Fin 0"
  by (simp add: fl_def)

lemma fl_power_of_two:
  assumes "- 1022 \<le> k" "k \<le> 1023" "s = 1 \<or> s = - 1"
  shows "fl (s * 2 powr of_int k) = Fin (s * 2 powr of_int k)"
proof -
  let ?x = "s * 2 powr of_int k"
  have ax: "\<bar>?x\<bar> = 2 powr of_int k" using assms(3) by auto
  have nz: "?x \<noteq> 0" using assms(3) by auto
  have lg: "\<lfloor>log 2 \<bar>?x\<bar>\<rfloor> = k" unfolding ax by simp
  have e: "max (\<lfloor>log 2 \<bar>?x\<bar>\<rfloor> - 52) (- 1074) = k - 52" unfolding lg using assms(1) by simp
  have p52: "(2::real) powr of_int k / 2 powr of_int (k - 52) = of_int (2 ^ 52)"
  proof -
    have "(2::real) powr of_int k / 2 powr of_int (k - 52) = 2 powr (of_int k - of_int (k - 52))"
      by (simp only: powr_diff)
    also have "\<dots> = 2 powr 52" by simp
    also have "\<dots> = of_int (2 ^ 52)" by simp
    finally show ?thesis .
  qed
  have q: "?x / 2 powr of_int (k - 52) = of_int (if s = 1 then 2 ^ 52 else - (2 ^ 52))"
    using assms(3) p52 by auto
  have r: "of_int (rne (?x / 2 powr of_int (k - 52))) * 2 powr of_int (k - 52) = ?x"
  proof -
    have "of_int (rne (?x / 2 powr of_int (k - 52))) * 2 powr of_int (k - 52)
          = (?x / 2 powr of_int (k - 52)) * 2 powr of_int (k - 52)"
      unfolding q by (simp only: rne_of_int)
    also have "\<dots> = ?x" by simp
    finally show ?thesis .
  qed
  have "(2::real) powr of_int k \<le> 2 powr 1023" using assms(2) by (intro powr_mono) simp_all
  also have "\<dots> < 2 powr 1024" by (intro powr_less_mono) simp_all
  also have "\<dots> = 2 ^ 1024" by simp
  finally have bound: "\<not> 2 ^ 1024 \<le> \<bar>?x\<bar>" unfolding ax by simp
  show ?thesis
    unfolding fl_def Let_def e r using nz bound by (simp only: if_False)
qed

lemma fl_underflow:
  assumes "0 < x" "x < 2 powr (- 1075)"
  shows "fl x = Fin 0"
proof -
  have "log 2 x < - 1075" using assms log_less_iff [of 2 x "- 1075"] by simp
  moreover have "real_of_int \<lfloor>log 2 x\<rfloor> \<le> log 2 x" by (rule of_int_floor_le)
  moreover have "\<bar>x\<bar> = x" using assms(1) by simp
  ultimately have "\<lfloor>log 2 \<bar>x\<bar>\<rfloor> < - 1075" by (simp only:)
  then have "\<lfloor>log 2 \<bar>x\<bar>\<rfloor> - 52 \<le> - 1074" by linarith
  then have e: "max (\<lfloor>log 2 \<bar>x\<bar>\<rfloor> - 52) (- 1074) = - 1074" by (rule max_absorb2)
  have "x / 2 powr of_int (- 1074) < 2 powr (- 1075) / 2 powr of_int (- 1074)"
    using assms(2) by (simp add: divide_strict_right_mono)
  also have "\<dots> = 2 powr (- 1075 - of_int (- 1074))" by (simp only: powr_diff)
  also have "\<dots> = 1 / 2" by (simp add: powr_minus field_simps)
  finally have "rne (x / 2 powr of_int (- 1074)) = 0"
    using assms(1) by (intro rne_small) simp_all
  then show ?thesis unfolding fl_def Let_def e using assms(1) by simp
qed

lemma fl_finite:
  assumes "\<bar>x\<bar> \<le> 1"
  shows "\<exists>r. fl x = Fin r"
proof (cases "x = 0")
  case True then show ?thesis by (simp add: fl_def)
next
  case False
  define e where "e = max (\<lfloor>log 2 \<bar>x\<bar>\<rfloor> - 52) (- 1074)"
  define y where "y = x / 2 powr of_int e"
  have "log 2 \<bar>x\<bar> \<le> 0" using assms False by simp
  then have "\<lfloor>log 2 \<bar>x\<bar>\<rfloor> \<le> 0" by (simp add: floor_le_iff) 
  then have "e \<le> 0" unfolding e_def by simp
  then have pe: "2 powr of_int e \<le> (1::real)" using powr_mono [of "of_int e" 0 2] by simp
  have pos: "0 < (2::real) powr of_int e" by simp
  have "\<bar>of_int (rne y) * 2 powr of_int e\<bar> = \<bar>of_int (rne y)\<bar> * (2::real) powr of_int e"
    by (simp add: abs_mult)
  also have "\<dots> \<le> (\<bar>y\<bar> + 1) * 2 powr of_int e"
    using rne_near [of y] by (intro mult_right_mono) auto
  also have "\<dots> = \<bar>x\<bar> + 2 powr of_int e" unfolding y_def by (simp add: field_simps abs_mult)
  also have "\<dots> \<le> 2" using assms pe by simp
  also have "\<dots> < 2 ^ 1024" by simp
  finally have "\<not> 2 ^ 1024 \<le> \<bar>of_int (rne y) * (2::real) powr of_int e\<bar>" by simp
  then show ?thesis unfolding fl_def Let_def using False
    by (simp only: e_def [symmetric] y_def [symmetric] if_False) simp
qed

lemma fl_values:
  "fl 1 = Fin 1" "fl 2 = Fin 2" "fl 4 = Fin 4" "fl 8 = Fin 8"
  "fl (1 / 2) = Fin (1 / 2)" "fl (1 / 4) = Fin (1 / 4)"
  "fl (- 2) = Fin (- 2)" "fl (- (1 / 2)) = Fin (- (1 / 2))"
  "fl 2147483648 = Fin 2147483648" "fl (- 2147483648) = Fin (- 2147483648)"
  "fl 4294967296 = Fin 4294967296"
  "fl 4611686018427387904 = Fin 4611686018427387904"
  "fl 9223372036854775808 = Fin 9223372036854775808"
  using fl_power_of_two [of 0 1] fl_power_of_two [of 1 1] fl_power_of_two [of 2 1]
    fl_power_of_two [of 3 1] fl_power_of_two [of "- 1" 1] fl_power_of_two [of "- 2" 1]
    fl_power_of_two [of 1 "- 1"] fl_power_of_two [of "- 1" "- 1"]
    fl_power_of_two [of 31 1] fl_power_of_two [of 31 "- 1"] fl_power_of_two [of 32 1]
    fl_power_of_two [of 62 1] fl_power_of_two [of 63 1]
  by (simp_all add: powr_minus)

lemma seq_sum_zeros: "sums_zeros seq_sum"
proof -
  have "list_all (\<lambda>z. z = Fin 0) zs \<Longrightarrow> foldl fadd (Fin 0) zs = Fin 0" for zs
    by (induction zs) (simp_all add: fl_zero)
  then show ?thesis by (simp add: sums_zeros_def seq_sum_def)
qed

lemma vec_subtract_defined:
  "vlen y_pred = vlen y_true \<Longrightarrow> \<exists>d. vec_subtract y_true y_pred = Inr d"
  by (cases y_true; cases y_pred) (simp_all add: np_broadcast2_def)

lemma fsub_self_zeros:
  "list_all (\<lambda>v. case v of Fin x \<Rightarrow> True | _ \<Rightarrow> False) xs \<Longrightarrow>
   list_all (\<lambda>z. z = Fin 0) (map2 fsub xs xs)"
  by (induction xs) (auto simp: fsub_def fl_zero split: float64.splits)

lemma squares_zeros:
  "list_all (\<lambda>z. z = Fin 0) zs \<Longrightarrow> list_all (\<lambda>z. z = Fin 0) (map (\<lambda>v. fmul v v) zs)"
  by (induction zs) (simp_all add: fl_zero)

lemma abs_zeros:
  "list_all (\<lambda>z. z = Fin 0) zs \<Longrightarrow> list_all (\<lambda>z. z = Fin 0) (map fabs zs)"
  by (induction zs) simp_all

lemma word_diff_self: "map2 (-) ws ws = replicate (length ws) (0 :: 64 word)"
  by (induction ws) simp_all

lemma sum_list_zero_words: "sum_list (replicate n (0 :: 64 word)) = 0"
  by (induction n) simp_all

lemma of_int64_zero: "of_int64 0 = Fin 0"
  by (simp add: of_int64_def fl_zero)

lemma residuals_of_equal:
  assumes "all_finite y" "sums_zeros np_sum"
  shows "residual_ss np_sum y y = Fin 0 \<and> residual_sa np_sum y y = Fin 0"
proof (cases y)
  case (F64 xs)
  let ?d = "map2 fsub xs xs"
  have z: "list_all (\<lambda>z. z = Fin 0) ?d" using assms(1) F64 by (simp add: fsub_self_zeros)
  have "np_sum (map (\<lambda>v. fmul v v) ?d) = Fin 0" "np_sum (map fabs ?d) = Fin 0"
    using assms(2) squares_zeros [OF z] abs_zeros [OF z] by (simp_all add: sums_zeros_def)
  then show ?thesis
    using F64 by (simp add: residual_ss_def residual_sa_def np_broadcast2_def)
next
  case (I64 ws)
  then show ?thesis
    by (simp add: residual_ss_def residual_sa_def np_broadcast2_def word_diff_self
        sum_list_zero_words of_int64_zero abs_int64_def)
qed

lemma r_squared_of_zero_rss:
  "fsub (Fin 1) (fdiv (Fin 0) t) = (if t = Fin 0 \<or> t = NaN then NaN else Fin 1)"
  by (cases t) (simp_all add: fsub_def signed_inf_def fl_zero fl_values)

lemma mean_of_zero:
  assumes "1 \<le> n"
  shows "fmul (fl (1 / real n)) (Fin 0) = Fin 0"
proof -
  have "\<bar>1 / real n\<bar> \<le> 1" using assms by simp
  then obtain r where "fl (1 / real n) = Fin r" using fl_finite by blast
  then show ?thesis by (simp add: fl_zero)
qed

lemma fsqrt_zero: "fsqrt (Fin 0) = Fin 0"
  by (simp add: fl_zero)

lemma unit_pair_total: "total_ss seq_sum seq_sum_cast unit_pair = Fin (1 / 2)"
  by (simp add: total_ss_def unit_pair_def seq_sum_def fsub_def fl_zero fl_values)

lemma mean_prediction_sums:
  "total_ss seq_sum seq_sum_cast (F64 [Fin 0, Fin 4]) = Fin 8"
  "residual_ss seq_sum (F64 [Fin 0, Fin 4]) (F64 [Fin 2, Fin 2]) = Fin 8"
  "residual_sa seq_sum (F64 [Fin 0, Fin 4]) (F64 [Fin 2, Fin 2]) = Fin 4"
  by (simp_all add: total_ss_def residual_ss_def residual_sa_def np_broadcast2_def
      seq_sum_def fsub_def fl_zero fl_values)

lemma tiny_pair_result:
  "total_ss seq_sum seq_sum_cast tiny_pair = Fin 0 \<and>
   evaluate_regression seq_sum seq_sum_cast tiny_pair tiny_pair =
     Inr (map_of [(''R2'', NaN), (''RMSE'', Fin 0), (''MAE'', Fin 0)])"
proof -
  define p where "p = (2::real) powr - 600"
  define q where "q = (2::real) powr - 601"
  have pq: "p / 2 = q" "p - q = q"
  proof -
    have "p = 2 powr (- 601 + 1)" by (simp add: p_def)
    also have "\<dots> = q * 2" unfolding q_def by (simp only: powr_add) simp
    finally show "p / 2 = q" "p - q = q" by simp_all
  qed
  have qq: "q * q = 2 powr - 1202" unfolding q_def by (simp only: powr_add [symmetric]) simp
  have "fl (1 * 2 powr of_int (- 600)) = Fin (1 * 2 powr of_int (- 600))"
    by (rule fl_power_of_two) simp_all
  then have fp: "fl p = Fin p" by (simp add: p_def)
  have "fl (1 * 2 powr of_int (- 601)) = Fin (1 * 2 powr of_int (- 601))"
    by (rule fl_power_of_two) simp_all
  then have fq: "fl q = Fin q" by (simp add: q_def)
  have "fl (- 1 * 2 powr of_int (- 601)) = Fin (- 1 * 2 powr of_int (- 601))"
    by (rule fl_power_of_two) simp_all
  then have fnq: "fl (- q) = Fin (- q)" by (simp add: q_def)
  have "(2::real) powr - 1202 < 2 powr - 1075" by (intro powr_less_mono) simp_all
  then have fqq: "fl (q * q) = Fin 0" unfolding qq by (intro fl_underflow) simp_all
  have t: "tiny_pair = F64 [Fin 0, Fin p]" by (simp add: tiny_pair_def p_def)
  have m: "vec_mean seq_sum seq_sum_cast (F64 [Fin 0, Fin p]) = Fin q"
    by (simp add: seq_sum_def fl_zero fl_values fp fq pq)
  have tss: "total_ss seq_sum seq_sum_cast (F64 [Fin 0, Fin p]) = Fin 0"
    unfolding total_ss_def m by (simp add: fsub_def seq_sum_def fl_zero fnq fq fqq pq)
  show ?thesis
    unfolding t using tss
    by (simp add: evaluate_regression_def total_ss_def np_broadcast2_def fsub_def seq_sum_def
        signed_inf_def fl_zero fl_values Let_def)
qed

lemma wrapped_result:
  "evaluate_regression seq_sum seq_sum_cast (I64 [4294967296, 0]) (I64 [0, 0]) =
     Inr (map_of [(''R2'', Fin 1), (''RMSE'', Fin 0), (''MAE'', Fin 2147483648)])"
proof -
  have m: "vec_mean seq_sum seq_sum_cast (I64 [4294967296, 0]) = Fin 2147483648"
    by (simp add: seq_sum_cast_def seq_sum_def of_int64_def fl_zero fl_values)
  have tss: "total_ss seq_sum seq_sum_cast (I64 [4294967296, 0]) = Fin 9223372036854775808"
    unfolding total_ss_def m by (simp add: fsub_def seq_sum_def of_int64_def fl_zero fl_values)
  show ?thesis
    using tss
    by (simp add: evaluate_regression_def total_ss_def np_broadcast2_def fsub_def
        of_int64_def abs_int64_def fl_zero fl_values Let_def)
qed

text \<open>
  C6. For vectors of equal length at least one, \<^verbatim>\<open>evaluate_regression\<close> returns a mapping
  with exactly the keys \<open>R2\<close>, \<open>RMSE\<close> and \<open>MAE\<close>. Its values are the formulas of the
  specification evaluated in the arithmetic of the arrays, float64 with rounding or int64
  with wrap-around, every sum being a sum of the numeric library and every mean of the
  residuals the product of \<open>1/n\<close> and a sum: \<open>R2\<close> is one minus the quotient of the residual
  and the total sum of squares, \<open>RMSE\<close> is the square root of \<open>1/n\<close> times the residual sum
  of squares, \<open>MAE\<close> is \<open>1/n\<close> times the sum of the absolute residuals. When the prediction
  equals a target of finite values, and a sum of zeros is zero, \<open>RMSE\<close> and \<open>MAE\<close> are
  exactly zero, and \<open>R2\<close> is exactly one unless the computed total sum of squares is zero
  or \<open>NaN\<close>, in which case it is \<open>NaN\<close>.
\<close>

theorem evaluate_regression_metrics:
  assumes "vlen y_pred = vlen y_true" and "1 \<le> vlen y_true"
  shows "\<exists>m. evaluate_regression np_sum np_sum_cast y_true y_pred = Inr m \<and>
           dom m = {''R2'', ''RMSE'', ''MAE''} \<and>
           m ''R2'' =
             Some (fsub (Fin 1)
                     (fdiv (residual_ss np_sum y_true y_pred)
                        (total_ss np_sum np_sum_cast y_true))) \<and>
           m ''RMSE'' =
             Some (fsqrt (fmul (fl (1 / real (vlen y_true)))
                            (residual_ss np_sum y_true y_pred))) \<and>
           m ''MAE'' =
             Some (fmul (fl (1 / real (vlen y_true))) (residual_sa np_sum y_true y_pred)) \<and>
           (y_pred = y_true \<and> all_finite y_true \<and> sums_zeros np_sum \<longrightarrow>
              m ''RMSE'' = Some (Fin 0) \<and> m ''MAE'' = Some (Fin 0) \<and>
              m ''R2'' =
                Some (if total_ss np_sum np_sum_cast y_true = Fin 0 \<or>
                         total_ss np_sum np_sum_cast y_true = NaN
                      then NaN else Fin 1))"
proof -
  obtain d where d: "vec_subtract y_true y_pred = Inr d"
    using vec_subtract_defined [OF assms(1)] by blast
  let ?m = "map_of [(''R2'', fsub (Fin 1) (fdiv (vec_sum np_sum (vec_square d))
                                             (total_ss np_sum np_sum_cast y_true))),
                    (''RMSE'', fsqrt (fmul (fl (1 / real (vlen y_true)))
                                        (vec_sum np_sum (vec_square d)))),
                    (''MAE'', fmul (fl (1 / real (vlen y_true))) (vec_sum np_sum (vec_abs d)))]"
  have ev: "evaluate_regression np_sum np_sum_cast y_true y_pred = Inr ?m"
    using assms(2) d by (simp add: evaluate_regression_def total_ss_def Let_def)
  have rs: "residual_ss np_sum y_true y_pred = vec_sum np_sum (vec_square d)"
    "residual_sa np_sum y_true y_pred = vec_sum np_sum (vec_abs d)"
    using d by (simp_all add: residual_ss_def residual_sa_def)
  have dm: "dom ?m = {''R2'', ''RMSE'', ''MAE''}" by auto
  have exact: "?m ''RMSE'' = Some (Fin 0) \<and> ?m ''MAE'' = Some (Fin 0) \<and>
      ?m ''R2'' = Some (if total_ss np_sum np_sum_cast y_true = Fin 0 \<or>
                           total_ss np_sum np_sum_cast y_true = NaN
                        then NaN else Fin 1)"
    if "y_pred = y_true" "all_finite y_true" "sums_zeros np_sum"
  proof -
    have "residual_ss np_sum y_true y_pred = Fin 0" "residual_sa np_sum y_true y_pred = Fin 0"
      using residuals_of_equal [OF that(2,3)] that(1) by simp_all
    then have z: "vec_sum np_sum (vec_square d) = Fin 0" "vec_sum np_sum (vec_abs d) = Fin 0"
      using rs by simp_all
    show ?thesis
      unfolding z
      by (simp add: mean_of_zero [OF assms(2)] fsqrt_zero fl_zero r_squared_of_zero_rss)
  qed
  show ?thesis
    unfolding ev rs using dm exact by (intro exI [of _ ?m]) simp
qed

text \<open>
  The vector \<open>[0, 1]\<close> predicted exactly, and the vector \<open>[0, 4]\<close> predicted by its mean.
\<close>

theorem evaluate_regression_metrics_witness:
  "vlen unit_pair = vlen unit_pair \<and> 1 \<le> vlen unit_pair \<and> all_finite unit_pair \<and>
   sums_zeros seq_sum \<and> total_ss seq_sum seq_sum_cast unit_pair = Fin (1 / 2) \<and>
   (\<exists>m. evaluate_regression seq_sum seq_sum_cast unit_pair unit_pair = Inr m \<and>
      dom m = {''R2'', ''RMSE'', ''MAE''} \<and>
      m ''R2'' = Some (Fin 1) \<and> m ''RMSE'' = Some (Fin 0) \<and> m ''MAE'' = Some (Fin 0)) \<and>
   vlen (F64 [Fin 2, Fin 2]) = vlen (F64 [Fin 0, Fin 4]) \<and> 1 \<le> vlen (F64 [Fin 0, Fin 4]) \<and>
   (\<exists>m. evaluate_regression seq_sum seq_sum_cast (F64 [Fin 0, Fin 4]) (F64 [Fin 2, Fin 2]) =
          Inr m \<and>
      dom m = {''R2'', ''RMSE'', ''MAE''} \<and>
      m ''R2'' = Some (Fin 0) \<and> m ''RMSE'' = Some (Fin 2) \<and> m ''MAE'' = Some (Fin 2))"
proof -
  have u: "vlen unit_pair = vlen unit_pair" "1 \<le> vlen unit_pair" "all_finite unit_pair"
    by (simp_all add: unit_pair_def)
  have v: "vlen (F64 [Fin 2, Fin 2]) = vlen (F64 [Fin 0, Fin 4])"
    "1 \<le> vlen (F64 [Fin 0, Fin 4])" "real (vlen (F64 [Fin 0, Fin 4])) = 2"
    by simp_all
  obtain m where m: "evaluate_regression seq_sum seq_sum_cast unit_pair unit_pair = Inr m"
    "dom m = {''R2'', ''RMSE'', ''MAE''}"
    "unit_pair = unit_pair \<and> all_finite unit_pair \<and> sums_zeros seq_sum \<longrightarrow>
       m ''RMSE'' = Some (Fin 0) \<and> m ''MAE'' = Some (Fin 0) \<and>
       m ''R2'' = Some (if total_ss seq_sum seq_sum_cast unit_pair = Fin 0 \<or>
                           total_ss seq_sum seq_sum_cast unit_pair = NaN
                        then NaN else Fin 1)"
    using evaluate_regression_metrics [OF u(1,2), of seq_sum seq_sum_cast] by blast
  have a: "m ''R2'' = Some (Fin 1)" "m ''RMSE'' = Some (Fin 0)" "m ''MAE'' = Some (Fin 0)"
    using m(3) u(3) seq_sum_zeros by (simp_all add: unit_pair_total)
  obtain n where n:
    "evaluate_regression seq_sum seq_sum_cast (F64 [Fin 0, Fin 4]) (F64 [Fin 2, Fin 2]) = Inr n"
    "dom n = {''R2'', ''RMSE'', ''MAE''}"
    "n ''R2'' =
       Some (fsub (Fin 1)
               (fdiv (residual_ss seq_sum (F64 [Fin 0, Fin 4]) (F64 [Fin 2, Fin 2]))
                  (total_ss seq_sum seq_sum_cast (F64 [Fin 0, Fin 4]))))"
    "n ''RMSE'' =
       Some (fsqrt (fmul (fl (1 / real (vlen (F64 [Fin 0, Fin 4]))))
                      (residual_ss seq_sum (F64 [Fin 0, Fin 4]) (F64 [Fin 2, Fin 2]))))"
    "n ''MAE'' =
       Some (fmul (fl (1 / real (vlen (F64 [Fin 0, Fin 4]))))
               (residual_sa seq_sum (F64 [Fin 0, Fin 4]) (F64 [Fin 2, Fin 2])))"
    using evaluate_regression_metrics [OF v(1,2), of seq_sum seq_sum_cast] by blast
  have b: "n ''R2'' = Some (Fin 0)" "n ''RMSE'' = Some (Fin 2)" "n ''MAE'' = Some (Fin 2)"
    unfolding n(3,4,5) mean_prediction_sums v(3)
    by (simp_all add: fsub_def fl_zero fl_values)
  show ?thesis
    using u v(1,2) seq_sum_zeros unit_pair_total m(1,2) a n(1,2) b by blast
qed

text \<open>
  C6, as stated, fails on the vector \<open>[0, 2\<^sup>-\<^sup>6\<^sup>0\<^sup>0]\<close>, which is not constant: predicted
  exactly, its squared deviations from the mean underflow to zero, the total sum of
  squares is zero and \<open>R2\<close> is \<open>NaN\<close>, not one. On int64 arrays the squares of the residuals
  wrap around: the target \<open>[2\<^sup>3\<^sup>2, 0]\<close> predicted by \<open>[0, 0]\<close> has \<open>RMSE\<close> zero and \<open>R2\<close> one.
\<close>

theorem evaluate_regression_metrics_counterexample:
  "tiny_pair = F64 [Fin 0, Fin (2 powr - 600)] \<and> Fin 0 \<noteq> Fin (2 powr - 600) \<and>
   all_finite tiny_pair \<and> sums_zeros seq_sum \<and>
   total_ss seq_sum seq_sum_cast tiny_pair = Fin 0 \<and>
   evaluate_regression seq_sum seq_sum_cast tiny_pair tiny_pair =
     Inr (map_of [(''R2'', NaN), (''RMSE'', Fin 0), (''MAE'', Fin 0)]) \<and>
   NaN \<noteq> Fin 1 \<and>
   I64 [4294967296, 0] \<noteq> I64 [0, 0] \<and>
   evaluate_regression seq_sum seq_sum_cast (I64 [4294967296, 0]) (I64 [0, 0]) =
     Inr (map_of [(''R2'', Fin 1), (''RMSE'', Fin 0), (''MAE'', Fin 2147483648)])"
proof -
  have "tiny_pair = F64 [Fin 0, Fin (2 powr - 600)]" "all_finite tiny_pair"
    by (simp_all add: tiny_pair_def)
  moreover have "(0::real) < 2 powr - 600" by simp
  then have "Fin 0 \<noteq> Fin (2 powr - 600)" by simp
  moreover have "I64 [4294967296, 0] \<noteq> I64 [0, 0]" by simp
  moreover have "NaN \<noteq> Fin 1" by simp
  ultimately show ?thesis
    using tiny_pair_result wrapped_result seq_sum_zeros by blast
qed

section \<open>The layout of one_hot_encode\<close>

lemma one_hot_loop_frame:
  "one_hot_loop h xt L d = (res, h') \<Longrightarrow> a < top h \<Longrightarrow> mem h' a = mem h a \<and> top h \<le> top h'"
proof (induction L arbitrary: h xt)
  case Nil
  then show ?case by simp
next
  case (Cons i L)
  show ?case
  proof (cases "np_column (mem h xt) i")
    case (Inl e)
    then show ?thesis using Cons.prems by simp
  next
    case col: (Inr c)
    show ?thesis
    proof (cases "np_unique c")
      case (Inl e)
      then show ?thesis using Cons.prems col by simp
    next
      case u: (Inr u)
      show ?thesis
      proof (cases "np_delete (mem h xt) i")
        case (Inl e)
        then show ?thesis using Cons.prems col u by simp
      next
        case D: (Inr D)
        obtain h1 x1 where a1: "alloc h D = (h1, x1)" by (cases "alloc h D")
        have h1: "mem h1 a = mem h a" "top h1 = Suc (top h)"
          using a1 Cons.prems(2) by (auto simp: alloc_def)
        show ?thesis
        proof (cases "np_hstack3 (cols_upto (mem h1 x1) i)
                 (indicator c (if d then drop 1 u else u)) (cols_from (mem h1 x1) i)")
          case (Inl e)
          then show ?thesis using Cons.prems col u D a1 h1 by (simp add: Let_def)
        next
          case H: (Inr H)
          obtain h2 x2 where a2: "alloc h1 H = (h2, x2)" by (cases "alloc h1 H")
          have h2: "mem h2 a = mem h a" "top h2 = Suc (Suc (top h))"
            using a2 h1 Cons.prems(2) by (auto simp: alloc_def)
          have "one_hot_loop h2 x2 L d = (res, h')"
            using Cons.prems(1) col u D a1 H a2 by (simp add: Let_def)
          from Cons.IH [OF this] h2 Cons.prems(2) show ?thesis by simp
        qed
      qed
    qed
  qed
qed

lemma one_hot_loop_values:
  "one_hot_values (mem h xt) L d = Inr B \<Longrightarrow>
     \<exists>h' r. one_hot_loop h xt L d = (Inr r, h') \<and> mem h' r = B"
proof (induction L arbitrary: h xt)
  case Nil
  then show ?case by simp
next
  case (Cons i L)
  from Cons.prems obtain c where col: "np_column (mem h xt) i = Inr c"
    by (auto simp: one_hot_step_def split: sum.splits)
  from Cons.prems col obtain u where u: "np_unique c = Inr u"
    by (auto simp: one_hot_step_def split: sum.splits)
  from Cons.prems col u obtain D where D: "np_delete (mem h xt) i = Inr D"
    by (auto simp: one_hot_step_def split: sum.splits)
  from Cons.prems col u D obtain H where
    H: "np_hstack3 (cols_upto D i) (indicator c (if d then drop 1 u else u)) (cols_from D i) = Inr H"
    and rest: "one_hot_values H L d = Inr B"
    by (auto simp: one_hot_step_def split: sum.splits)
  obtain h1 x1 where a1: "alloc h D = (h1, x1)" by (cases "alloc h D")
  then have m1: "mem h1 x1 = D" by (auto simp: alloc_def)
  obtain h2 x2 where a2: "alloc h1 H = (h2, x2)" by (cases "alloc h1 H")
  then have m2: "mem h2 x2 = H" by (auto simp: alloc_def)
  from Cons.IH [of h2 x2] rest m2 obtain h' r where
    "one_hot_loop h2 x2 L d = (Inr r, h')" "mem h' r = B" by auto
  then show ?case using col u D a1 m1 H a2 by (simp add: Let_def)
qed

lemma distinct_remdups_adj_sorted:
  fixes xs :: "'a::linorder list"
  shows "sorted xs \<Longrightarrow> distinct (remdups_adj xs)"
  by (induction xs rule: remdups_adj.induct) (auto split: if_split_asm)

lemma remdups_adj_sort: "remdups_adj (sort xs) = sorted_list_of_set (set xs)"
proof -
  have "sorted (remdups_adj (sort xs))" by simp
  moreover have "distinct (remdups_adj (sort xs))" by (simp add: distinct_remdups_adj_sorted)
  moreover have "set (remdups_adj (sort xs)) = set xs" by simp
  ultimately show ?thesis
    by (metis sorted_list_of_set.idem_if_sorted_distinct)
qed

lemma np_unique_label_domain:
  "homogeneous col \<Longrightarrow> np_unique col = Inr (label_domain col)"
  by (auto simp: homogeneous_def np_unique_def label_domain_def remdups_adj_sort)

lemma zip3_map:
  "zip (map f xs) (zip (map g xs) (map k xs)) = map (\<lambda>x. (f x, g x, k x)) xs"
  by (induction xs) auto

lemma one_hot_step_rows:
  assumes wf: "wf_array2 A" and j: "j < ncols A" and hom: "homogeneous (column A j)"
  shows "one_hot_step (TArray dt A) (int j) d =
     Inr (TArray dt (Array2 (ncols A - 1 + length (labels_of A d j))
            (map (\<lambda>r. take j r @ encode_cell dt (labels_of A d j) (r ! j) @ drop (Suc j) r) (rows A))))"
proof -
  have len: "\<And>r. r \<in> set (rows A) \<Longrightarrow> length r = ncols A"
    using wf by (simp add: wf_array2_def list_all_iff)
  have idx: "py_index (int j) (ncols A) = Inr j" using j by (simp add: py_index_def)
  have col: "np_column (TArray dt A) (int j) = Inr (column A j)" by (simp add: np_column_def idx)
  define D where "D = Array2 (ncols A - 1) (map (\<lambda>r. take j r @ drop (Suc j) r) (rows A))"
  have del: "np_delete (TArray dt A) (int j) = Inr (TArray dt D)"
    by (simp add: np_delete_def idx D_def)
  have sb: "slice_bound (int j) (ncols D) = j" using j by (simp add: slice_bound_def D_def)
  have up: "cols_upto (TArray dt D) (int j) = TArray dt (Array2 j (map (take j) (rows A)))"
    using len j by (simp add: cols_upto_def sb Let_def) (simp add: D_def)
  have fr: "cols_from (TArray dt D) (int j) = TArray dt (Array2 (ncols A - 1 - j) (map (drop (Suc j)) (rows A)))"
    using len j by (simp add: cols_from_def sb Let_def) (simp add: D_def)
  have lab: "(if d then drop 1 (label_domain (column A j)) else label_domain (column A j)) = labels_of A d j"
    by (simp add: labels_of_def drop_Suc)
  let ?Ind = "indicator (column A j) (labels_of A d j)"
  have ind: "?Ind = Array2 (length (labels_of A d j))
                    (map (\<lambda>r. map (\<lambda>v. if r ! j = v then 1 else 0) (labels_of A d j)) (rows A))"
    by (simp add: indicator_def column_def comp_def)
  have "one_hot_step (TArray dt A) (int j) d =
      np_hstack3 (TArray dt (Array2 j (map (take j) (rows A)))) ?Ind
        (TArray dt (Array2 (ncols A - 1 - j) (map (drop (Suc j)) (rows A))))"
    by (simp only: one_hot_step_def col sum.case np_unique_label_domain [OF hom] del up fr lab)
  also have "\<dots> = Inr (TArray dt (Array2 (ncols A - 1 + length (labels_of A d j))
            (map (\<lambda>r. take j r @ encode_cell dt (labels_of A d j) (r ! j) @ drop (Suc j) r) (rows A))))"
    using j by (simp add: ind np_hstack3_def nrows_def zip3_map encode_cell_def comp_def if_distrib cong: if_cong)
  finally show ?thesis .
qed

lemma length_encode_row: "length (encode_row dt X S d r) = encoded_width X S d"
  by (simp add: encode_row_def encoded_width_def length_concat comp_def encode_cell_def if_distrib cong: if_cong)

lemma upt_split3: "j < c \<Longrightarrow> [0..<c] = [0..<j] @ j # [Suc j..<c]"
  by (metis less_imp_le_nat upt_add_eq_append upt_conv_Cons zero_le le_add_diff_inverse)

lemma concat_map_split:
  "j < c \<Longrightarrow> concat (map f [0..<c]) = concat (map f [0..<j]) @ f j @ concat (map f [Suc j..<c])"
  by (subst upt_split3 [of j c]) (simp_all del: upt_Suc)

lemma concat_map_singletons:
  "\<forall>k\<in>set ks. f k = [g k] \<Longrightarrow> concat (map f ks) = map g ks"
  by (induction ks) auto

lemma encode_row_below:
  assumes "j < ncols X" and "\<forall>s\<in>S. j < s"
  shows "encode_row dt X S d r =
           map ((!) r) [0..<j] @ [r ! j] @
           concat (map (\<lambda>k. if k \<in> S then encode_cell dt (labels_of X d k) (r ! k) else [r ! k]) [Suc j..<ncols X])"
proof -
  let ?f = "\<lambda>k. if k \<in> S then encode_cell dt (labels_of X d k) (r ! k) else [r ! k]"
  have s: "encode_row dt X S d r = concat (map ?f [0..<j]) @ ?f j @ concat (map ?f [Suc j..<ncols X])"
    unfolding encode_row_def by (rule concat_map_split [OF assms(1)])
  have a: "concat (map ?f [0..<j]) = map ((!) r) [0..<j]"
    by (rule concat_map_singletons) (use assms(2) in auto)
  have b: "?f j = [r ! j]" using assms(2) by auto
  show ?thesis by (simp only: s a b)
qed

lemma encode_row_insert:
  assumes "j < ncols X" and "\<forall>s\<in>S. j < s"
  shows "encode_row dt X (insert j S) d r =
           map ((!) r) [0..<j] @ encode_cell dt (labels_of X d j) (r ! j) @
           concat (map (\<lambda>k. if k \<in> S then encode_cell dt (labels_of X d k) (r ! k) else [r ! k]) [Suc j..<ncols X])"
proof -
  let ?f = "\<lambda>k. if k \<in> insert j S then encode_cell dt (labels_of X d k) (r ! k) else [r ! k]"
  let ?g = "\<lambda>k. if k \<in> S then encode_cell dt (labels_of X d k) (r ! k) else [r ! k]"
  have s: "encode_row dt X (insert j S) d r = concat (map ?f [0..<j]) @ ?f j @ concat (map ?f [Suc j..<ncols X])"
    unfolding encode_row_def by (rule concat_map_split [OF assms(1)])
  have a: "concat (map ?f [0..<j]) = map ((!) r) [0..<j]"
    by (rule concat_map_singletons) (use assms(2) in auto)
  have b: "?f j = encode_cell dt (labels_of X d j) (r ! j)" by simp
  have c: "map ?f [Suc j..<ncols X] = map ?g [Suc j..<ncols X]"
    by (rule map_cong) auto
  show ?thesis by (simp only: s a b c)
qed

lemma encode_row_step:
  assumes "j < ncols X" and "\<forall>s\<in>S. j < s"
  shows "take j (encode_row dt X S d r) @ encode_cell dt L (encode_row dt X S d r ! j) @ drop (Suc j) (encode_row dt X S d r)
         = map ((!) r) [0..<j] @ encode_cell dt L (r ! j) @
           concat (map (\<lambda>k. if k \<in> S then encode_cell dt (labels_of X d k) (r ! k) else [r ! k]) [Suc j..<ncols X])"
  by (simp add: encode_row_below [OF assms] nth_append)

lemma encoded_width_below:
  assumes "j < ncols X" and "\<forall>s\<in>S. j < s"
  shows "encoded_width X S d =
           Suc j + length (concat (map (\<lambda>k. if k \<in> S then encode_cell Object (labels_of X d k) ([] ! k) else [[] ! k]) [Suc j..<ncols X]))"
  using arg_cong [OF encode_row_below [OF assms, of Object d "[]"], of length]
  by (simp only: length_encode_row length_append length_map length_upt list.size)

lemma encoded_width_insert:
  assumes "j < ncols X" and "\<forall>s\<in>S. j < s"
  shows "encoded_width X (insert j S) d =
           j + length (labels_of X d j) + length (concat (map (\<lambda>k. if k \<in> S then encode_cell Object (labels_of X d k) ([] ! k) else [[] ! k]) [Suc j..<ncols X]))"
  using arg_cong [OF encode_row_insert [OF assms, of Object d "[]"], of length]
  by (simp only: length_encode_row length_append length_map length_upt list.size encode_cell_def)

lemma encoded_step:
  assumes j: "j < ncols X" and S: "\<forall>s\<in>S. j < s" and hom: "homogeneous (column X j)"
  shows "one_hot_step (TArray dt (Array2 (encoded_width X S d) (map (encode_row dt X S d) (rows X)))) (int j) d =
         Inr (TArray dt (Array2 (encoded_width X (insert j S) d) (map (encode_row dt X (insert j S) d) (rows X))))"
proof -
  let ?A = "Array2 (encoded_width X S d) (map (encode_row dt X S d) (rows X))"
  have wf: "wf_array2 ?A"
    by (simp add: wf_array2_def list_all_iff length_encode_row)
  have jA: "j < ncols ?A" using encoded_width_below [OF j S, of d] by simp
  have nth: "\<And>r. encode_row dt X S d r ! j = r ! j"
    by (simp add: encode_row_below [OF j S] nth_append)
  have col: "column ?A j = column X j"
    by (simp add: column_def nth)
  have lab: "labels_of ?A d j = labels_of X d j"
    by (simp only: labels_of_def col)
  have hom': "homogeneous (column ?A j)" using hom by (simp only: col)
  have w: "ncols ?A - 1 + length (labels_of X d j) = encoded_width X (insert j S) d"
    using encoded_width_below [OF j S, of d] encoded_width_insert [OF j S, of d] by simp
  have r: "\<And>r. take j (encode_row dt X S d r) @ encode_cell dt (labels_of X d j) (encode_row dt X S d r ! j)
                 @ drop (Suc j) (encode_row dt X S d r) = encode_row dt X (insert j S) d r"
    by (simp only: encode_row_step [OF j S] encode_row_insert [OF j S])
  show ?thesis
    by (simp only: one_hot_step_rows [OF wf jA hom'] lab w) (simp add: r comp_def)
qed

lemma one_hot_values_encode:
  assumes "sorted_wrt (>) L"
    and "\<forall>i\<in>set L. 0 \<le> i \<and> i < int (ncols X)"
    and "\<forall>i\<in>set L. homogeneous (column X (nat i))"
    and "\<forall>s\<in>S. \<forall>i\<in>set L. i < int s"
  shows "one_hot_values (TArray dt (Array2 (encoded_width X S d) (map (encode_row dt X S d) (rows X)))) L d =
         Inr (TArray dt (Array2 (encoded_width X (S \<union> nat ` set L) d)
                (map (encode_row dt X (S \<union> nat ` set L) d) (rows X))))"
  using assms
proof (induction L arbitrary: S)
  case Nil
  then show ?case by simp
next
  case (Cons i L)
  define j where "j = nat i"
  have i: "i = int j" and j: "j < ncols X" using Cons.prems(2) by (auto simp: j_def)
  have S: "\<forall>s\<in>S. j < s" using Cons.prems(4) i by auto
  have hom: "homogeneous (column X j)" using Cons.prems(3) by (simp add: j_def)
  have step: "one_hot_step (TArray dt (Array2 (encoded_width X S d) (map (encode_row dt X S d) (rows X)))) i d =
         Inr (TArray dt (Array2 (encoded_width X (insert j S) d) (map (encode_row dt X (insert j S) d) (rows X))))"
    unfolding i by (rule encoded_step [OF j S hom])
  have below: "\<forall>s\<in>insert j S. \<forall>i'\<in>set L. i' < int s"
    using Cons.prems(1,4) i by auto
  have IH: "one_hot_values (TArray dt (Array2 (encoded_width X (insert j S) d) (map (encode_row dt X (insert j S) d) (rows X)))) L d =
         Inr (TArray dt (Array2 (encoded_width X (insert j S \<union> nat ` set L) d)
                (map (encode_row dt X (insert j S \<union> nat ` set L) d) (rows X))))"
    using Cons.prems by (intro Cons.IH below) auto
  have sets: "insert j S \<union> nat ` set L = S \<union> nat ` set (i # L)" by (auto simp: j_def)
  have "one_hot_values (TArray dt (Array2 (encoded_width X S d) (map (encode_row dt X S d) (rows X)))) (i # L) d =
        one_hot_values (TArray dt (Array2 (encoded_width X (insert j S) d) (map (encode_row dt X (insert j S) d) (rows X)))) L d"
    using step by simp
  then show ?case by (simp only: IH sets)
qed

lemma encode_row_empty:
  assumes "length r = ncols X"
  shows "encode_row dt X {} d r = r"
proof -
  have "encode_row dt X {} d r = map ((!) r) [0..<length r]"
    by (simp add: encode_row_def assms)
  then show ?thesis by (simp add: map_nth)
qed

lemma encoded_width_empty: "encoded_width X {} d = ncols X"
  by (simp add: encoded_width_def sum_list_triv)

lemma array_as_encoding:
  assumes "wf_array2 X"
  shows "Array2 (encoded_width X {} d) (map (encode_row dt X {} d) (rows X)) = X"
proof -
  have "map (encode_row dt X {} d) (rows X) = rows X"
    using assms by (intro map_idI) (simp add: wf_array2_def list_all_iff encode_row_empty)
  then show ?thesis by (simp add: encoded_width_empty)
qed

lemma sorted_desc:
  fixes idxs :: "int list"
  shows "distinct idxs \<Longrightarrow> sorted_wrt (>) (rev (sort idxs))"
  by (simp add: sorted_wrt_rev strict_sorted_iff)

lemma one_hot_encode_result:
  assumes wf: "wf_array2 (cells_of (mem h X))"
    and dist: "distinct categorical_indices"
    and range: "\<forall>i\<in>set categorical_indices. 0 \<le> i \<and> i < int (ncols (cells_of (mem h X)))"
    and hom: "\<forall>i\<in>set categorical_indices. homogeneous (column (cells_of (mem h X)) (nat i))"
  shows "\<exists>h' r. one_hot_encode h X categorical_indices drop_first = (Inr r, h') \<and>
           mem h' r =
             TArray (dtype_of (mem h X))
               (Array2 (encoded_width (cells_of (mem h X)) (nat ` set categorical_indices) drop_first)
                  (map (encode_row (dtype_of (mem h X)) (cells_of (mem h X))
                          (nat ` set categorical_indices) drop_first)
                     (rows (cells_of (mem h X)))))"
proof -
  let ?X = "cells_of (mem h X)" and ?dt = "dtype_of (mem h X)"
  let ?L = "rev (sort categorical_indices)"
  have "one_hot_values (TArray ?dt (Array2 (encoded_width ?X {} drop_first) (map (encode_row ?dt ?X {} drop_first) (rows ?X)))) ?L drop_first =
         Inr (TArray ?dt (Array2 (encoded_width ?X ({} \<union> nat ` set ?L) drop_first)
                (map (encode_row ?dt ?X ({} \<union> nat ` set ?L) drop_first) (rows ?X))))"
    using range hom by (intro one_hot_values_encode sorted_desc dist) auto
  then have v: "one_hot_values (mem h X) ?L drop_first =
         Inr (TArray ?dt (Array2 (encoded_width ?X (nat ` set categorical_indices) drop_first)
                (map (encode_row ?dt ?X (nat ` set categorical_indices) drop_first) (rows ?X))))"
    by (simp add: array_as_encoding [OF wf])
  obtain h1 xt where a: "alloc h (mem h X) = (h1, xt)" by (cases "alloc h (mem h X)")
  then have m: "mem h1 xt = mem h X" by (auto simp: alloc_def)
  from one_hot_loop_values [of h1 xt ?L drop_first] v m
  obtain h' r where "one_hot_loop h1 xt ?L drop_first = (Inr r, h')"
    and "mem h' r = TArray ?dt (Array2 (encoded_width ?X (nat ` set categorical_indices) drop_first)
                (map (encode_row ?dt ?X (nat ` set categorical_indices) drop_first) (rows ?X)))"
    by auto
  then show ?thesis using a by (simp add: one_hot_encode_def)
qed

lemmas one_hot_defs =
  one_hot_encode_def alloc_def np_column_def py_index_def column_def np_unique_def
  strs_def nums_def indicator_def np_delete_def np_hstack3_def cols_upto_def cols_from_def
  slice_bound_def nrows_def new_heap_def astype_of_def str_of_int_def str_of_nat.simps Let_def

lemma set_col_strs: "nums col = [] \<Longrightarrow> set col = Str ` set (strs col)"
  by (induction col) (auto simp: nums_def strs_def split: cell.splits)

lemma set_col_nums: "strs col = [] \<Longrightarrow> set col = Num ` set (nums col)"
  by (induction col) (auto simp: nums_def strs_def split: cell.splits)

lemma length_label_domain:
  assumes "homogeneous col"
  shows "length (label_domain col) = card (set col)"
proof (cases "nums col = []")
  case True
  then have "card (set col) = card (set (strs col))"
    by (simp add: set_col_strs card_image inj_on_def)
  then show ?thesis using True by (simp add: label_domain_def)
next
  case False
  then have s: "strs col = []" using assms by (simp add: homogeneous_def)
  then have "card (set col) = card (set (nums col))"
    by (simp add: set_col_nums card_image inj_on_def)
  then show ?thesis using s by (simp add: label_domain_def)
qed

lemma length_labels_of:
  assumes "homogeneous (column X j)"
  shows "int (length (labels_of X d j)) = max 0 (int (card (set (column X j))) - (if d then 1 else 0))"
proof -
  have "length (labels_of X d j) = card (set (column X j)) - (if d then 1 else 0)"
    using assms by (simp add: labels_of_def length_label_domain Let_def)
  then show ?thesis by (cases "card (set (column X j))") (auto simp: max_def)
qed

lemma encoded_width_count:
  assumes "S \<subseteq> {0..<ncols X}"
  shows "encoded_width X S d = (ncols X - card S) + (\<Sum>j\<in>S. length (labels_of X d j))"
proof -
  have fin: "finite S" using assms finite_subset by blast
  have "encoded_width X S d = (\<Sum>j\<in>{0..<ncols X}. if j \<in> S then length (labels_of X d j) else 1)"
    by (simp add: encoded_width_def interv_sum_list_conv_sum_set_nat)
  also have "\<dots> = (\<Sum>j\<in>{0..<ncols X} \<inter> {j. j \<in> S}. length (labels_of X d j)) +
                  (\<Sum>j\<in>{0..<ncols X} \<inter> - {j. j \<in> S}. 1)"
    by (rule sum.If_cases) simp
  also have "{0..<ncols X} \<inter> {j. j \<in> S} = S" using assms by auto
  also have "{0..<ncols X} \<inter> - {j. j \<in> S} = {0..<ncols X} - S" by auto
  also have "(\<Sum>j\<in>{0..<ncols X} - S. 1) = ncols X - card S"
    using assms fin by (simp add: card_Diff_subset)
  finally show ?thesis by simp
qed

lemma encoded_width_column_count:
  assumes dist: "distinct idxs"
    and range: "\<forall>i\<in>set idxs. 0 \<le> i \<and> i < int (ncols X)"
    and hom: "\<forall>i\<in>set idxs. homogeneous (column X (nat i))"
  shows "int (encoded_width X (nat ` set idxs) d) = column_count X idxs d"
proof -
  have inj: "inj_on nat (set idxs)"
  proof (rule inj_onI)
    fix x y assume "x \<in> set idxs" "y \<in> set idxs" "nat x = nat y"
    moreover from this range have "0 \<le> x" "0 \<le> y" by auto
    ultimately show "x = y" by simp
  qed
  have sub: "nat ` set idxs \<subseteq> {0..<ncols X}" using range by auto
  have card: "card (nat ` set idxs) = length idxs"
    using inj dist by (simp add: card_image distinct_card)
  have le: "length idxs \<le> ncols X"
    using card_mono [OF _ sub] card by simp
  have "int (\<Sum>j\<in>nat ` set idxs. length (labels_of X d j)) =
        (\<Sum>i\<in>set idxs. int (length (labels_of X d (nat i))))"
    by (simp add: sum.reindex [OF inj])
  also have "\<dots> = (\<Sum>i\<in>set idxs. max 0 (int (card (set (column X (nat i)))) - (if d then 1 else 0)))"
    by (rule sum.cong) (use hom in \<open>auto simp: length_labels_of\<close>)
  also have "\<dots> = (\<Sum>i\<leftarrow>idxs. max 0 (int (card (set (column X (nat i)))) - (if d then 1 else 0)))"
    using dist by (simp add: sum_list_distinct_conv_sum_set)
  finally have s: "int (\<Sum>j\<in>nat ` set idxs. length (labels_of X d j)) =
        (\<Sum>i\<leftarrow>idxs. max 0 (int (card (set (column X (nat i)))) - (if d then 1 else 0)))" .
  show ?thesis
    using le s by (simp add: encoded_width_count [OF sub] card column_count_def)
qed

lemma one_hot_loop_fresh:
  "one_hot_loop h xt L d = (Inr r, h') \<Longrightarrow> r = xt \<or> top h \<le> r"
proof (induction L arbitrary: h xt)
  case Nil
  then show ?case by simp
next
  case (Cons i L)
  from Cons.prems obtain c where col: "np_column (mem h xt) i = Inr c"
    by (auto split: sum.splits)
  from Cons.prems col obtain u where u: "np_unique c = Inr u"
    by (auto split: sum.splits)
  from Cons.prems col u obtain D where D: "np_delete (mem h xt) i = Inr D"
    by (auto split: sum.splits)
  obtain h1 x1 where a1: "alloc h D = (h1, x1)" by (cases "alloc h D")
  from Cons.prems col u D a1 obtain H where
    H: "np_hstack3 (cols_upto (mem h1 x1) i) (indicator c (if d then drop 1 u else u)) (cols_from (mem h1 x1) i) = Inr H"
    by (auto simp: Let_def split: sum.splits)
  obtain h2 x2 where a2: "alloc h1 H = (h2, x2)" by (cases "alloc h1 H")
  have "one_hot_loop h2 x2 L d = (Inr r, h')"
    using Cons.prems col u D a1 H a2 by (simp add: Let_def)
  from Cons.IH [OF this] have "r = x2 \<or> top h2 \<le> r" .
  moreover have "x2 = Suc (top h)" "top h2 = Suc (Suc (top h))"
    using a1 a2 by (auto simp: alloc_def)
  ultimately show ?case by auto
qed

lemma example_heap_object:
  "mem example_heap 0 =
     TArray Object (Array2 2 [[Num 1, Str ''a''], [Num 2, Str ''b''], [Num 3, Str ''a'']])"
  "top example_heap = 1"
  by (simp_all add: example_heap_def example_X_def alloc_def new_heap_def)

lemma example_heap_valid:
  "wf_array2 (cells_of (mem example_heap 0))" "distinct [1 :: int]"
  "\<forall>i\<in>set [1 :: int]. 0 \<le> i \<and> i < int (ncols (cells_of (mem example_heap 0)))"
  "\<forall>i\<in>set [1 :: int]. homogeneous (column (cells_of (mem example_heap 0)) (nat i))"
  by (simp_all add: example_heap_object wf_array2_def homogeneous_def column_def nums_def)

lemma example_labels:
  "label_domain [Str ''a'', Str ''b'', Str ''a''] = [Str ''a'', Str ''b'']"
proof -
  have n: "nums [Str ''a'', Str ''b'', Str ''a''] = []"
    and s: "strs [Str ''a'', Str ''b'', Str ''a''] = [''a'', ''b'', ''a'']"
    by (simp_all add: nums_def strs_def)
  show ?thesis
    by (simp only: label_domain_def n s sorted_list_of_set_sort_remdups) simp
qed

text \<open>
  C4, as amended. For a well-formed array and pairwise distinct categorical indices that
  are column positions \<open>0 \<le> i < ncols\<close>, each of a column that holds only numbers or only
  text, \<open>one_hot_encode\<close> returns an array of the dtype of the input whose every row is the
  row of the input with each categorical cell replaced, in place, by one indicator per
  label of the sorted distinct values of its column (without the first label when
  \<open>drop_first\<close>) and every other cell kept in its order. The indicator is the integer 1
  exactly when the original cell equals the label, and 0 otherwise, as a cell of the
  dtype: the numbers 1 and 0 in a number or object array, the texts \<open>1\<close> and \<open>0\<close> in a
  text array. The example of the specification gives the stated rows on the object
  array, for both values of \<open>drop_first\<close>.
\<close>

theorem one_hot_encode_layout:
  assumes "wf_array2 (cells_of (mem h X))"
    and "distinct categorical_indices"
    and "\<forall>i\<in>set categorical_indices. 0 \<le> i \<and> i < int (ncols (cells_of (mem h X)))"
    and "\<forall>i\<in>set categorical_indices. homogeneous (column (cells_of (mem h X)) (nat i))"
  shows "(\<exists>h' r. one_hot_encode h X categorical_indices drop_first = (Inr r, h') \<and>
           dtype_of (mem h' r) = dtype_of (mem h X) \<and>
           rows (cells_of (mem h' r)) =
             map (\<lambda>row. concat (map (\<lambda>j.
                     if j \<in> nat ` set categorical_indices
                     then map (\<lambda>label. astype_of (dtype_of (mem h X)) (if row ! j = label then 1 else 0))
                            (labels_of (cells_of (mem h X)) drop_first j)
                     else [row ! j]) [0..<ncols (cells_of (mem h X))]))
               (rows (cells_of (mem h X)))) \<and>
         astype_of Number 1 = Num 1 \<and> astype_of Number 0 = Num 0 \<and>
         astype_of Object 1 = Num 1 \<and> astype_of Object 0 = Num 0 \<and>
         astype_of Text 1 = Str ''1'' \<and> astype_of Text 0 = Str ''0''"
proof -
  have cells: "astype_of Number 1 = Num 1" "astype_of Number 0 = Num 0"
    "astype_of Object 1 = Num 1" "astype_of Object 0 = Num 0"
    "astype_of Text 1 = Str ''1''" "astype_of Text 0 = Str ''0''"
    by (simp_all add: astype_of_def str_of_int_def str_of_nat.simps)
  have "\<exists>h' r. one_hot_encode h X categorical_indices drop_first = (Inr r, h') \<and>
           dtype_of (mem h' r) = dtype_of (mem h X) \<and>
           rows (cells_of (mem h' r)) =
             map (\<lambda>row. concat (map (\<lambda>j.
                     if j \<in> nat ` set categorical_indices
                     then map (\<lambda>label. astype_of (dtype_of (mem h X)) (if row ! j = label then 1 else 0))
                            (labels_of (cells_of (mem h X)) drop_first j)
                     else [row ! j]) [0..<ncols (cells_of (mem h X))]))
               (rows (cells_of (mem h X)))"
    using one_hot_encode_result [OF assms, of drop_first]
    by (auto simp: encode_row_def encode_cell_def cong: if_cong)
  then show ?thesis using cells by simp
qed

theorem one_hot_encode_layout_witness:
  "wf_array2 (cells_of (mem example_heap 0)) \<and> distinct [1 :: int] \<and>
   0 \<le> (1 :: int) \<and> 1 < int (ncols (cells_of (mem example_heap 0))) \<and>
   homogeneous (column (cells_of (mem example_heap 0)) (nat 1)) \<and>
   mem example_heap 0 =
     TArray Object (Array2 2 [[Num 1, Str ''a''], [Num 2, Str ''b''], [Num 3, Str ''a'']]) \<and>
   (\<exists>h' r. one_hot_encode example_heap 0 [1] False = (Inr r, h') \<and>
      dtype_of (mem h' r) = Object \<and>
      rows (cells_of (mem h' r)) =
        [[Num 1, Num 1, Num 0], [Num 2, Num 0, Num 1], [Num 3, Num 1, Num 0]]) \<and>
   (\<exists>h' r. one_hot_encode example_heap 0 [1] True = (Inr r, h') \<and>
      dtype_of (mem h' r) = Object \<and>
      rows (cells_of (mem h' r)) = [[Num 1, Num 0], [Num 2, Num 1], [Num 3, Num 0]])"
proof -
  have up: "[0..<2] = [0, 1]" by (simp add: upt_rec)
  show ?thesis
    using one_hot_encode_layout [OF example_heap_valid, of False]
      one_hot_encode_layout [OF example_heap_valid, of True] example_heap_valid
    by (auto simp: example_heap_object labels_of_def column_def example_labels up)
qed

text \<open>
  C4, as stated, fails on the text array that \<^verbatim>\<open>np.array\<close> makes of the nested list of
  the example: the indicator cells of the result are the texts \<open>1\<close> and \<open>0\<close>, not the
  numbers, so its rows are not the rows that the specification gives.
\<close>

theorem one_hot_encode_layout_counterexample:
  "mem example_text_heap 0 =
     TArray Text (Array2 2 [[Str ''1'', Str ''a''], [Str ''2'', Str ''b''], [Str ''3'', Str ''a'']]) \<and>
   well_typed (mem example_text_heap 0) \<and>
   fst (one_hot_encode example_text_heap 0 [1] False) = Inr 3 \<and>
   mem (snd (one_hot_encode example_text_heap 0 [1] False)) 3 =
     TArray Text (Array2 3 [[Str ''1'', Str ''1'', Str ''0''], [Str ''2'', Str ''0'', Str ''1''],
                            [Str ''3'', Str ''1'', Str ''0'']]) \<and>
   rows (cells_of (mem (snd (one_hot_encode example_text_heap 0 [1] False)) 3)) \<noteq>
     [[Num 1, Num 1, Num 0], [Num 2, Num 0, Num 1], [Num 3, Num 1, Num 0]] \<and>
   fst (one_hot_encode example_text_heap 0 [1] True) = Inr 3 \<and>
   mem (snd (one_hot_encode example_text_heap 0 [1] True)) 3 =
     TArray Text (Array2 2 [[Str ''1'', Str ''0''], [Str ''2'', Str ''1''], [Str ''3'', Str ''0'']]) \<and>
   rows (cells_of (mem (snd (one_hot_encode example_text_heap 0 [1] True)) 3)) \<noteq>
     [[Num 1, Num 0], [Num 2, Num 1], [Num 3, Num 0]]"
  by (simp add: example_text_heap_def example_text_X_def one_hot_defs well_typed_def)

text \<open>
  C5, as amended. Under the same hypotheses the column count of the result is the
  original column count minus the number of categorical indices plus, for each
  categorical column, the number of its distinct values minus one if \<open>drop_first\<close>, and
  never less than zero: a column without rows has no label to drop.
\<close>

theorem one_hot_encode_column_count:
  assumes "wf_array2 (cells_of (mem h X))"
    and "distinct categorical_indices"
    and "\<forall>i\<in>set categorical_indices. 0 \<le> i \<and> i < int (ncols (cells_of (mem h X)))"
    and "\<forall>i\<in>set categorical_indices. homogeneous (column (cells_of (mem h X)) (nat i))"
  shows "\<exists>h' r. one_hot_encode h X categorical_indices drop_first = (Inr r, h') \<and>
           int (ncols (cells_of (mem h' r))) =
             column_count (cells_of (mem h X)) categorical_indices drop_first"
  using one_hot_encode_result [OF assms, of drop_first]
    encoded_width_column_count [OF assms(2,3,4), of drop_first]
  by auto

theorem one_hot_encode_column_count_witness:
  "wf_array2 (cells_of (mem example_heap 0)) \<and> distinct [1 :: int] \<and>
   0 \<le> (1 :: int) \<and> 1 < int (ncols (cells_of (mem example_heap 0))) \<and>
   homogeneous (column (cells_of (mem example_heap 0)) (nat 1)) \<and>
   (\<exists>h' r. one_hot_encode example_heap 0 [1] True = (Inr r, h') \<and>
      int (ncols (cells_of (mem h' r))) = 2)"
proof -
  have c: "column_count (cells_of (mem example_heap 0)) [1] True = 2"
    by (simp add: example_heap_object column_count_def column_def card_insert_if)
  show ?thesis
    using one_hot_encode_column_count [OF example_heap_valid, of True] example_heap_valid
    by (simp add: c)
qed

text \<open>
  C5, as stated, fails on an array with one column and no rows with \<open>drop_first\<close>: the
  result has no column, and the stated count is \<open>-1\<close>.
\<close>

theorem one_hot_encode_column_count_counterexample:
  "wf_array2 (cells_of (mem empty_rows_heap 0)) \<and>
   0 < int (ncols (cells_of (mem empty_rows_heap 0))) \<and>
   fst (one_hot_encode empty_rows_heap 0 [0] True) = Inr 3 \<and>
   ncols (cells_of (mem (snd (one_hot_encode empty_rows_heap 0 [0] True)) 3)) = 0 \<and>
   spec_column_count (cells_of (mem empty_rows_heap 0)) [0] True = - 1 \<and>
   int (ncols (cells_of (mem (snd (one_hot_encode empty_rows_heap 0 [0] True)) 3))) \<noteq>
     spec_column_count (cells_of (mem empty_rows_heap 0)) [0] True"
  by (simp add: empty_rows_heap_def one_hot_defs wf_array2_def spec_column_count_def)

text \<open>
  C10. Whatever \<open>one_hot_encode\<close> returns or raises, the array object \<open>X\<close> of the caller
  holds the same dtype, shape and entries afterwards, as does every other object that
  existed before the call, and the returned array is an object other than \<open>X\<close>.
\<close>

theorem one_hot_encode_input_unchanged:
  assumes "X < top h"
  shows "mem (snd (one_hot_encode h X categorical_indices drop_first)) X = mem h X \<and>
         (\<forall>a<top h. mem (snd (one_hot_encode h X categorical_indices drop_first)) a = mem h a) \<and>
         (\<forall>r. fst (one_hot_encode h X categorical_indices drop_first) = Inr r \<longrightarrow> r \<noteq> X)"
proof -
  let ?L = "rev (sort categorical_indices)"
  obtain h1 xt where a: "alloc h (mem h X) = (h1, xt)" by (cases "alloc h (mem h X)")
  then have h1: "top h1 = Suc (top h)" "xt = top h" "\<And>a. a < top h \<Longrightarrow> mem h1 a = mem h a"
    by (auto simp: alloc_def)
  obtain res h' where l: "one_hot_loop h1 xt ?L drop_first = (res, h')"
    by (cases "one_hot_loop h1 xt ?L drop_first")
  have e: "one_hot_encode h X categorical_indices drop_first = (res, h')"
    using a l by (simp add: one_hot_encode_def)
  have frame: "mem h' a = mem h a" if "a < top h" for a
    using one_hot_loop_frame [OF l, of a] h1 that by simp
  have fresh: "r \<noteq> X" if "res = Inr r" for r
    using one_hot_loop_fresh [of h1 xt ?L drop_first r h'] l that h1 assms by auto
  show ?thesis using frame fresh assms by (simp add: e)
qed

theorem one_hot_encode_input_unchanged_witness:
  "0 < top example_heap \<and>
   fst (one_hot_encode example_heap 0 [1] False) = Inr 3 \<and>
   mem (snd (one_hot_encode example_heap 0 [1] False)) 0 =
     TArray Object (Array2 2 [[Num 1, Str ''a''], [Num 2, Str ''b''], [Num 3, Str ''a'']]) \<and>
   mem example_heap 0 =
     TArray Object (Array2 2 [[Num 1, Str ''a''], [Num 2, Str ''b''], [Num 3, Str ''a'']])"
proof -
  have t: "0 < top example_heap" by (simp add: example_heap_object)
  have r: "fst (one_hot_encode example_heap 0 [1] False) = Inr 3"
    by (simp add: example_heap_def example_X_def one_hot_defs)
  show ?thesis
    using one_hot_encode_input_unchanged [OF t, of "[1]" False] t r
    by (simp add: example_heap_object)
qed

section \<open>The least-squares fit\<close>

lemma inner_sum: "length u = length v \<Longrightarrow> inner u v = (\<Sum>i<length u. u ! i * v ! i)"
  by (simp add: inner_def sum_list_sum_nth atLeast0LessThan)

lemma wf_row_length: "wf_array2 M \<Longrightarrow> i < nrows M \<Longrightarrow> length (rows M ! i) = ncols M"
  by (simp add: wf_array2_def list_all_length nrows_def)

lemma wf_bias_augmented: "wf_array2 M \<Longrightarrow> wf_array2 (bias_augmented M)"
  by (simp add: wf_array2_def bias_augmented_def list_all_iff)

lemma hstack_ones:
  "np_hstack2 (np_ones (nrows M) 1) M = Inr (bias_augmented M)"
proof -
  have "map2 (@) (replicate (length rs) [1]) rs = map (\<lambda>r. 1 # r) rs" for rs :: "real list list"
    by (induction rs) auto
  then show ?thesis
    by (simp add: np_hstack2_def np_ones_def nrows_def bias_augmented_def)
qed

lemma length_column: "length (column B j) = nrows B"
  by (simp add: column_def nrows_def)

lemma nth_column: "i < nrows B \<Longrightarrow> column B j ! i = rows B ! i ! j"
  by (simp add: column_def nrows_def)

lemma dot_transpose_self: "np_dot_mm (np_transpose B) B = Inr (gram B)"
proof -
  have "inner (column B j) (column B k) = (\<Sum>i<nrows B. rows B ! i ! j * rows B ! i ! k)" for j k
    by (simp add: inner_sum length_column nth_column)
  then show ?thesis
    by (simp add: np_dot_mm_def np_transpose_def gram_def comp_def)
qed

lemma column_transpose:
  assumes "wf_array2 B" and "i < nrows B"
  shows "column (np_transpose B) i = rows B ! i"
proof -
  have "column (np_transpose B) i = map (\<lambda>j. rows B ! i ! j) [0..<ncols B]"
    using assms(2) by (simp add: column_def np_transpose_def comp_def nrows_def)
  also have "\<dots> = rows B ! i"
    using wf_row_length [OF assms] by (metis map_nth)
  finally show ?thesis .
qed

lemma fit_multiple_weights:
  assumes wf: "wf_array2 B" and c: "0 < ncols B" and y: "length y = nrows B"
    and inv: "linalg_inv (gram B) = Inr Minv" and isinv: "is_inverse (gram B) Minv"
  shows "fit_multiple linalg_inv B y (h, self) =
           (Inr (), (fst (alloc h (tl (normal_equation_weights Minv B y))),
                     self\<lparr>intercept := Some (hd (normal_equation_weights Minv B y)),
                          coefficients := Some (top h)\<rparr>))"
proof -
  let ?w = "normal_equation_weights Minv B y"
  have dims: "ncols Minv = ncols B" "nrows Minv = ncols B" "wf_array2 Minv"
    using isinv by (simp_all add: is_inverse_def gram_def nrows_def)
  define P where "P = Array2 (nrows B)
      (map (\<lambda>r. map (\<lambda>i. inner r (column (np_transpose B) i)) [0..<nrows B]) (rows Minv))"
  have dot1: "np_dot_mm Minv (np_transpose B) = Inr P"
    using dims by (simp add: np_dot_mm_def np_transpose_def P_def nrows_def)
  have rowP: "rows P ! j = map (\<lambda>i. \<Sum>k<ncols B. rows Minv ! j ! k * rows B ! i ! k) [0..<nrows B]"
    if "j < ncols B" for j
  proof -
    have lj: "length (rows Minv ! j) = ncols B"
      using wf_row_length [OF dims(3), of j] dims that by simp
    have "inner (rows Minv ! j) (column (np_transpose B) i) =
            (\<Sum>k<ncols B. rows Minv ! j ! k * rows B ! i ! k)" if "i < nrows B" for i
      using that lj wf_row_length [OF wf that] by (simp add: column_transpose [OF wf that] inner_sum)
    then show ?thesis
      using that dims by (simp add: P_def nrows_def)
  qed
  have dot2: "np_dot_mv P y = Inr ?w"
  proof -
    have "map (\<lambda>r. inner r y) (rows P) = ?w"
    proof (rule nth_equalityI)
      show "length (map (\<lambda>r. inner r y) (rows P)) = length ?w"
        using dims by (simp add: P_def normal_equation_weights_def nrows_def)
    next
      fix j assume "j < length (map (\<lambda>r. inner r y) (rows P))"
      then have j: "j < ncols B" using dims by (simp add: P_def nrows_def)
      then have jP: "j < length (rows P)" using dims by (simp add: P_def nrows_def)
      have "inner (rows P ! j) y = (\<Sum>i<nrows B. (\<Sum>k<ncols B. rows Minv ! j ! k * rows B ! i ! k) * y ! i)"
        using y by (simp add: rowP [OF j] inner_sum)
      then show "map (\<lambda>r. inner r y) (rows P) ! j = ?w ! j"
        using j jP by (simp add: normal_equation_weights_def)
    qed
    then show ?thesis using y by (simp add: np_dot_mv_def P_def)
  qed
  have ne: "?w = hd ?w # tl ?w"
    using c by (cases ?w) (simp_all add: normal_equation_weights_def)
  show ?thesis
    unfolding fit_multiple_def
    apply (simp only: prod.case Let_def dot_transpose_self sum.case inv dot1 dot2)
    apply (subst ne)
    apply (simp add: alloc_def)
    done
qed

text \<open>
  C1. For a well-formed \<open>X\<close> and a \<open>y\<close> with one entry per row, when the inverse that the
  numeric library returns for \<open>X\<^sup>T X\<close> of the bias-augmented matrix is \<open>M\<close>, \<open>fit\<close> with
  \<open>least_squares\<close> returns \<open>None\<close>, sets \<open>intercept\<close> to the first entry of
  \<open>w = M X\<^sup>T y\<close> and \<open>coefficients\<close> to a new array that holds the other entries of \<open>w\<close>,
  the entry of feature \<open>j\<close> at position \<open>j\<close>.
\<close>

theorem fit_least_squares:
  assumes "wf_array2 (design_matrix X)"
    and "length y = nrows (design_matrix X)"
    and "linalg_inv (gram (bias_augmented (design_matrix X))) = Inr Minv"
    and "is_inverse (gram (bias_augmented (design_matrix X))) Minv"
  shows "let w = normal_equation_weights Minv (bias_augmented (design_matrix X)) y in
         \<exists>h'. fit linalg_inv rand X y ''least_squares'' learning_rate iterations (h, self) =
                 (Inr None, (h', self\<lparr>intercept := Some (w ! 0), coefficients := Some (top h)\<rparr>)) \<and>
               mem h' (top h) = map (\<lambda>j. w ! Suc j) [0..<ncols (design_matrix X)]"
proof -
  let ?B = "bias_augmented (design_matrix X)"
  let ?w = "normal_equation_weights Minv ?B y"
  have wf: "wf_array2 ?B" using assms(1) by (rule wf_bias_augmented)
  have c: "0 < ncols ?B" "ncols ?B = Suc (ncols (design_matrix X))" by (simp_all add: bias_augmented_def)
  have y: "length y = nrows ?B" using assms(2) by (simp add: bias_augmented_def nrows_def)
  have len: "length ?w = Suc (ncols (design_matrix X))"
    by (simp add: normal_equation_weights_def c(2))
  have hd: "hd ?w = ?w ! 0" using len by (cases ?w) simp_all
  have tl: "tl ?w = map (\<lambda>j. ?w ! Suc j) [0..<ncols (design_matrix X)]"
    using len by (intro nth_equalityI) (simp_all add: nth_tl)
  have X2: "(case X of A1 xs \<Rightarrow> reshape_column xs | A2 M \<Rightarrow> M) = design_matrix X"
    by (simp add: design_matrix_def reshape_column_def split: ndarray.splits)
  have "fit linalg_inv rand X y ''least_squares'' learning_rate iterations (h, self) =
          (Inr None, (fst (alloc h (tl ?w)), self\<lparr>intercept := Some (hd ?w), coefficients := Some (top h)\<rparr>))"
    using fit_multiple_weights [where linalg_inv = linalg_inv and B = ?B and y = y and Minv = Minv,
        OF wf c(1) y assms(3,4), of h self]
    by (simp add: fit_def X2 Let_def hstack_ones [unfolded One_nat_def])
  moreover have "mem (fst (alloc h (tl ?w))) (top h) = tl ?w" by (simp add: alloc_def)
  ultimately show ?thesis by (simp add: Let_def hd tl)
qed

theorem fit_least_squares_witness:
  "wf_array2 (design_matrix (A1 [0, 1])) \<and> length [1, 3 :: real] = nrows (design_matrix (A1 [0, 1])) \<and>
   gram (bias_augmented (design_matrix (A1 [0, 1]))) = Array2 2 [[2, 1], [1, 1]] \<and>
   is_inverse (Array2 2 [[2, 1], [1, 1]]) (Array2 2 [[1, - 1], [- 1, 2]]) \<and>
   (\<exists>h'. fit example_inv (\<lambda>k. 0) (A1 [0, 1]) [1, 3] ''least_squares'' 0.01 1000 (new_heap [], init) =
           (Inr None, (h', \<lparr>coefficients = Some 0, intercept = Some 1\<rparr>)) \<and>
         mem h' 0 = [2])"
proof -
  have two: "[0..<2] = [0, 1]" "{..<2::nat} = {0, 1}" by (auto simp: upt_rec)
  have wf: "wf_array2 (design_matrix (A1 [0, 1]))" by (simp add: design_matrix_def wf_array2_def)
  have y: "length [1, 3 :: real] = nrows (design_matrix (A1 [0, 1]))"
    by (simp add: design_matrix_def nrows_def)
  have g: "gram (bias_augmented (design_matrix (A1 [0, 1]))) = Array2 2 [[2, 1], [1, 1]]"
    by (simp add: gram_def bias_augmented_def design_matrix_def nrows_def two)
  have inv: "example_inv (gram (bias_augmented (design_matrix (A1 [0, 1])))) = Inr (Array2 2 [[1, - 1], [- 1, 2]])"
    by (simp add: g example_inv_def)
  have isinv: "is_inverse (Array2 2 [[2, 1], [1, 1]]) (Array2 2 [[1, - 1], [- 1, 2]])"
    by (simp add: is_inverse_def wf_array2_def nrows_def two)
  have isinv': "is_inverse (gram (bias_augmented (design_matrix (A1 [0, 1])))) (Array2 2 [[1, - 1], [- 1, 2]])"
    using isinv by (simp only: g)
  have w: "normal_equation_weights (Array2 2 [[1, - 1], [- 1, 2]]) (bias_augmented (design_matrix (A1 [0, 1]))) [1, 3]
           = [1, 2]"
    by (simp add: normal_equation_weights_def bias_augmented_def design_matrix_def nrows_def two)
  have nc: "ncols (design_matrix (A1 [0, 1])) = 1" by (simp add: design_matrix_def)
  have "\<exists>h'. fit example_inv (\<lambda>k. 0) (A1 [0, 1]) [1, 3] ''least_squares'' 0.01 1000 (new_heap [], init) =
           (Inr None, (h', init\<lparr>intercept := Some ([1, 2] ! 0), coefficients := Some (top (new_heap ([] :: real list)))\<rparr>)) \<and>
         mem h' (top (new_heap ([] :: real list))) = map (\<lambda>j. [1, 2] ! Suc j) [0..<ncols (design_matrix (A1 [0, 1]))]"
    using fit_least_squares [where linalg_inv = example_inv and X = "A1 [0, 1]" and y = "[1, 3]"
        and Minv = "Array2 2 [[1, - 1], [- 1, 2]]" and rand = "\<lambda>k. 0" and learning_rate = "0.01"
        and iterations = 1000 and h = "new_heap []" and self = init, OF wf y inv isinv']
    unfolding Let_def w .
  then show ?thesis
    using wf y g isinv by (simp add: nc init_def new_heap_def)
qed

section \<open>Gradient descent\<close>

lemma dot_mv_predictions:
  assumes "wf_array2 B" and "length w = ncols B - 1" and "0 < ncols B"
  shows "np_dot_mv B (b # w) = Inr (spec_predictions B b w)"
proof -
  have "map (\<lambda>r. inner r (b # w)) (rows B) = spec_predictions B b w"
  proof (rule nth_equalityI)
    show "length (map (\<lambda>r. inner r (b # w)) (rows B)) = length (spec_predictions B b w)"
      by (simp add: spec_predictions_def nrows_def)
  next
    fix i assume "i < length (map (\<lambda>r. inner r (b # w)) (rows B))"
    then have i: "i < nrows B" by (simp add: nrows_def)
    have "length (rows B ! i) = length (b # w)"
      using wf_row_length [OF assms(1) i] assms(2,3) by simp
    then have "inner (rows B ! i) (b # w) = (\<Sum>k<ncols B. rows B ! i ! k * (b # w) ! k)"
      using wf_row_length [OF assms(1) i] by (simp only: inner_sum)
    then show "map (\<lambda>r. inner r (b # w)) (rows B) ! i = spec_predictions B b w ! i"
      using i by (simp add: spec_predictions_def nrows_def)
  qed
  then show ?thesis using assms(2,3) by (simp add: np_dot_mv_def)
qed

lemma subtract_error:
  assumes "length y = nrows B"
  shows "np_subtract (spec_predictions B b w) y = Inr (spec_error B y b w)"
proof -
  have len: "length (spec_predictions B b w) = length y"
    using assms by (simp add: spec_predictions_def)
  have "map2 (-) (spec_predictions B b w) y = spec_error B y b w"
    using len assms by (intro nth_equalityI) (simp_all add: spec_error_def)
  then show ?thesis using len by (simp add: np_subtract_def)
qed

lemma dot_transpose_error:
  shows "np_dot_mv (np_transpose B) (spec_error B y b w) =
           Inr (map (\<lambda>j. \<Sum>i<nrows B. rows B ! i ! j * spec_error B y b w ! i) [0..<ncols B])"
proof -
  have "inner (column B j) (spec_error B y b w) = (\<Sum>i<nrows B. rows B ! i ! j * spec_error B y b w ! i)" for j
    by (simp add: inner_sum length_column nth_column spec_error_def)
  then show ?thesis
    by (simp add: np_dot_mv_def np_transpose_def spec_error_def comp_def)
qed

lemma sum_list_map_nth: "sum_list (map f xs) = (\<Sum>i<length xs. f (xs ! i))"
  by (simp add: sum_list_sum_nth atLeast0LessThan)

lemma sum_sq_error:
  "sum_list (map (\<lambda>e. e ^ 2) (spec_error B y b w)) = (\<Sum>i<nrows B. (spec_error B y b w ! i) ^ 2)"
  by (simp add: sum_list_map_nth) (simp add: spec_error_def)

lemma gd_iteration_update:
  assumes wf: "wf_array2 B" and c: "0 < ncols B" and y: "length y = nrows B" and r: "0 < nrows B"
    and b: "intercept self = Some b" and a: "coefficients self = Some a"
    and w: "length (mem h a) = ncols B - 1"
  shows "gd_iteration B y lr ((h, self), (lh, wh, bh)) =
     (let g = spec_gradient B y b (mem h a);
          b' = b - lr * g ! 0;
          w' = map (\<lambda>j. mem h a ! j - lr * g ! Suc j) [0..<ncols B - 1]
      in (Inr (), (fst (alloc (put h a w') w'), self\<lparr>intercept := Some b'\<rparr>),
          (lh @ [spec_mse B y b (mem h a)], wh @ [top h], bh @ [b'])))"
proof -
  let ?g = "spec_gradient B y b (mem h a)"
  let ?w' = "map (\<lambda>j. mem h a ! j - lr * ?g ! Suc j) [0..<ncols B - 1]"
  have g: "map (\<lambda>v. (1 / real (length y)) * v)
             (map (\<lambda>j. \<Sum>i<nrows B. rows B ! i ! j * spec_error B y b (mem h a) ! i) [0..<ncols B]) = ?g"
    by (simp add: spec_gradient_def y comp_def)
  have glen: "length ?g = ncols B" by (simp add: spec_gradient_def)
  have gne: "?g = ?g ! 0 # tl ?g"
    using c glen by (cases ?g) simp_all
  have isub: "np_isub (mem h a) (map (\<lambda>v. lr * v) (tl ?g)) = Inr ?w'"
  proof -
    have "map2 (-) (mem h a) (map (\<lambda>v. lr * v) (tl ?g)) = ?w'"
      using w glen by (intro nth_equalityI) (simp_all add: nth_tl)
    then show ?thesis using w glen by (simp add: np_isub_def)
  qed
  have mse: "1 / real (length y) * sum_list (map (\<lambda>e. e ^ 2) (spec_error B y b (mem h a)))
             = spec_mse B y b (mem h a)"
    by (simp add: sum_sq_error spec_mse_def y)
  have m0: "length y \<noteq> 0" using y r by simp
  show ?thesis
    unfolding gd_iteration_def
    apply (simp only: prod.case Let_def a b option.case dot_mv_predictions [OF wf w c] sum.case
        subtract_error [OF y] m0 if_False dot_transpose_error g)
    apply (subst gne)
    apply (simp only: list.case isub sum.case mse)
    apply (simp add: alloc_def put_def)
    done
qed

lemma gd_loop_Suc_end:
  "gd_loop B y lr (Suc n) st =
     (case gd_loop B y lr n st of
        (Inl e, st') \<Rightarrow> (Inl e, st')
      | (Inr u, st') \<Rightarrow> gd_iteration B y lr st')"
proof (induction n arbitrary: st)
  case 0
  show ?case by (cases "gd_iteration B y lr st") (auto split: sum.splits)
next
  case (Suc n)
  obtain res st1 where it: "gd_iteration B y lr st = (res, st1)"
    by (cases "gd_iteration B y lr st")
  show ?case
  proof (cases res)
    case (Inl e)
    then show ?thesis using it by simp
  next
    case (Inr u)
    have a: "gd_loop B y lr (Suc (Suc n)) st = gd_loop B y lr (Suc n) st1"
      by (subst gd_loop.simps(2)) (simp add: it Inr del: gd_loop.simps)
    have b: "gd_loop B y lr (Suc n) st = gd_loop B y lr n st1"
      by (subst gd_loop.simps(2)) (simp add: it Inr del: gd_loop.simps)
    have "gd_loop B y lr (Suc (Suc n)) st =
            (case gd_loop B y lr n st1 of
               (Inl e, st') \<Rightarrow> (Inl e, st')
             | (Inr u, st') \<Rightarrow> gd_iteration B y lr st')"
      by (simp only: a Suc.IH [of st1])
    also have "\<dots> = (case gd_loop B y lr (Suc n) st of
               (Inl e, st') \<Rightarrow> (Inl e, st')
             | (Inr u, st') \<Rightarrow> gd_iteration B y lr st')"
      by (simp only: b)
    finally show ?thesis .
  qed
qed

lemma fit_gradient_descent_loop:
  assumes "0 < ncols B"
  shows "fit_gradient_descent rand B y lr its hs =
     (case gd_loop B y lr (nat its) (gd_start rand B hs) of
        (Inl e, st, _) \<Rightarrow> (Inl e, st)
      | (Inr _, st, (loss_history, w_history, b_history)) \<Rightarrow>
          (Inr (loss_history, b_history, w_history), st))"
  using assms by (cases hs) (simp add: fit_gradient_descent_def gd_start_def Let_def split: prod.splits)

lemma gd_start_state:
  "\<exists>h1 s1. gd_start rand B (h, self) = ((h1, s1), ([], [], [])) \<and>
     coefficients s1 = Some (top h) \<and> intercept s1 = Some (rand (ncols B - 1) * 0.01) \<and>
     length (mem h1 (top h)) = ncols B - 1 \<and> top h1 = Suc (top h) \<and>
     mem h1 (top h) = map (\<lambda>k. rand k * 0.01) [0..<ncols B - 1]"
  by (simp add: gd_start_def alloc_def)

lemma gd_loop_valid:
  assumes wf: "wf_array2 B" and c: "0 < ncols B" and y: "length y = nrows B" and r: "0 < nrows B"
    and "coefficients s0 = Some a" and "intercept s0 = Some b0"
    and "length (mem h0 a) = ncols B - 1" and "a < top h0"
  shows "\<exists>h s hist b. gd_loop B y lr n ((h0, s0), hist0) = (Inr (), ((h, s), hist)) \<and>
           coefficients s = Some a \<and> intercept s = Some b \<and>
           length (mem h a) = ncols B - 1 \<and> a < top h"
proof (induction n)
  case 0
  show ?case
    using assms by (intro exI [of _ h0] exI [of _ s0] exI [of _ hist0] exI [of _ b0]) simp
next
  case (Suc n)
  then obtain h s hist b where
    l: "gd_loop B y lr n ((h0, s0), hist0) = (Inr (), ((h, s), hist))"
    and s: "coefficients s = Some a" "intercept s = Some b"
    and w: "length (mem h a) = ncols B - 1" and a: "a < top h"
    by blast
  obtain lh wh bh where hist: "hist = (lh, wh, bh)" by (cases hist)
  show ?case
    using a
    by (simp only: gd_loop_Suc_end l prod.case sum.case hist
        gd_iteration_update [OF wf c y r s(2) s(1) w])
      (simp add: Let_def alloc_def put_def s)
qed

text \<open>
  C2. For a well-formed bias-augmented matrix with at least one row and a \<open>y\<close> with one
  entry per row, iteration \<open>k + 1\<close> of \<open>fit_gradient_descent\<close> takes the object from the
  state after \<open>k\<close> iterations, with intercept \<open>b\<close> and coefficient array \<open>w\<close>, to the state
  with intercept \<open>b - learning_rate * gradient[0]\<close> and, in the same array object, the
  coefficients \<open>w[j] - learning_rate * gradient[j + 1]\<close>, for the gradient
  \<open>(1/m) X\<^sup>T (X [b, w] - y)\<close>.
\<close>

theorem gd_update_rule:
  assumes wf: "wf_array2 B" and c: "0 < ncols B" and y: "length y = nrows B" and r: "0 < nrows B"
  shows "\<exists>hk sk hk' sk' a b.
           snd (fit_gradient_descent rand B y lr (int k) (h0, s0)) = (hk, sk) \<and>
           snd (fit_gradient_descent rand B y lr (int (Suc k)) (h0, s0)) = (hk', sk') \<and>
           intercept sk = Some b \<and> coefficients sk = Some a \<and> coefficients sk' = Some a \<and>
           intercept sk' = Some (b - lr * spec_gradient B y b (mem hk a) ! 0) \<and>
           mem hk' a =
             map (\<lambda>j. mem hk a ! j - lr * spec_gradient B y b (mem hk a) ! Suc j) [0..<ncols B - 1]"
proof -
  obtain h1 s1 where st: "gd_start rand B (h0, s0) = ((h1, s1), ([], [], []))"
    and s1: "coefficients s1 = Some (top h0)" "intercept s1 = Some (rand (ncols B - 1) * 0.01)"
    and w1: "length (mem h1 (top h0)) = ncols B - 1" and t1: "top h0 < top h1"
    using gd_start_state [of rand B h0 s0] by auto
  from gd_loop_valid [OF wf c y r s1 w1 t1, of lr k "([], [], [])"]
  obtain h s hist b where
    l: "gd_loop B y lr k ((h1, s1), ([], [], [])) = (Inr (), ((h, s), hist))"
    and s: "coefficients s = Some (top h0)" "intercept s = Some b"
    and w: "length (mem h (top h0)) = ncols B - 1" and a: "top h0 < top h"
    by blast
  obtain lh wh bh where hist: "hist = (lh, wh, bh)" by (cases hist)
  have k: "snd (fit_gradient_descent rand B y lr (int k) (h0, s0)) = (h, s)"
    by (simp add: fit_gradient_descent_loop [OF c] st l hist)
  let ?g = "spec_gradient B y b (mem h (top h0))"
  let ?w' = "map (\<lambda>j. mem h (top h0) ! j - lr * ?g ! Suc j) [0..<ncols B - 1]"
  have l': "gd_loop B y lr (Suc k) ((h1, s1), ([], [], [])) =
      (Inr (), (fst (alloc (put h (top h0) ?w') ?w'), s\<lparr>intercept := Some (b - lr * ?g ! 0)\<rparr>),
          (lh @ [spec_mse B y b (mem h (top h0))], wh @ [top h], bh @ [b - lr * ?g ! 0]))"
    by (simp only: gd_loop_Suc_end l prod.case sum.case hist
        gd_iteration_update [OF wf c y r s(2) s(1) w] Let_def)
  have k': "snd (fit_gradient_descent rand B y lr (int (Suc k)) (h0, s0)) =
      (fst (alloc (put h (top h0) ?w') ?w'), s\<lparr>intercept := Some (b - lr * ?g ! 0)\<rparr>)"
  proof -
    have n: "nat (int (Suc k)) = Suc k" by simp
    show ?thesis
      by (simp only: fit_gradient_descent_loop [OF c] n st l' prod.case sum.case snd_conv)
  qed
  have m: "mem (fst (alloc (put h (top h0) ?w') ?w')) (top h0) = ?w'"
    using a by (simp add: alloc_def put_def)
  show ?thesis
    using k k' s m
    by (intro exI [of _ h] exI [of _ s] exI [of _ "fst (alloc (put h (top h0) ?w') ?w')"]
          exI [of _ "s\<lparr>intercept := Some (b - lr * ?g ! 0)\<rparr>"] exI [of _ "top h0"] exI [of _ b])
       simp
qed

lemma gd_iteration_Inr:
  assumes "gd_iteration B y lr ((h, s), (lh, wh, bh)) = (Inr u, ((h', s'), (lh', wh', bh')))"
  shows "\<exists>a b' w' mse. coefficients s = Some a \<and> h' = fst (alloc (put h a w') w') \<and>
           s' = s\<lparr>intercept := Some b'\<rparr> \<and> lh' = lh @ [mse] \<and> wh' = wh @ [top h] \<and>
           bh' = bh @ [b']"
  using assms
  by (auto simp: gd_iteration_def Let_def alloc_def put_def
      split: option.splits sum.splits list.splits if_splits)

lemma gd_loop_traces:
  assumes "gd_loop B y lr n ((h0, s0), ([], [], [])) = (Inr u, ((h, s), (lh, wh, bh)))"
    and "coefficients s0 = Some a" and "a < top h0"
  shows "coefficients s = Some a \<and> top h = top h0 + n \<and> length lh = n \<and> length bh = n \<and>
         wh = map (\<lambda>i. top h0 + i) [0..<n] \<and>
         (\<forall>k\<le>n. \<exists>hk sk. gd_loop B y lr k ((h0, s0), ([], [], [])) =
                     (Inr (), ((hk, sk), (take k lh, take k wh, take k bh))) \<and>
                   coefficients sk = Some a \<and>
                   (0 < k \<longrightarrow> mem h (wh ! (k - 1)) = mem hk a \<and> intercept sk = Some (bh ! (k - 1))))"
  using assms(1)
proof (induction n arbitrary: u h s lh wh bh)
  case 0
  then show ?case using assms(2) by auto
next
  case (Suc n)
  let ?init = "((h0, s0), ([], [], []))"
  obtain res stn where ln: "gd_loop B y lr n ?init = (res, stn)"
    by (cases "gd_loop B y lr n ?init")
  from Suc.prems ln obtain un where res: "res = Inr un"
    and it: "gd_iteration B y lr stn = (Inr u, ((h, s), (lh, wh, bh)))"
    by (cases res) (auto simp: gd_loop_Suc_end simp del: gd_loop.simps)
  obtain hn sn lhn whn bhn where stn: "stn = ((hn, sn), (lhn, whn, bhn))"
    by (cases stn) auto
  note IH = Suc.IH [OF ln [unfolded res stn]]
  from gd_iteration_Inr [OF it [unfolded stn]] IH obtain b' w' mse where
    h: "h = fst (alloc (put hn a w') w')" and s: "s = sn\<lparr>intercept := Some b'\<rparr>"
    and lh: "lh = lhn @ [mse]" and wh: "wh = whn @ [top hn]" and bh: "bh = bhn @ [b']"
    by auto
  have tn: "top hn = top h0 + n" and cn: "coefficients sn = Some a"
    and len: "length lhn = n" "length bhn = n" "length whn = n"
    and whn: "whn = map (\<lambda>i. top h0 + i) [0..<n]"
    using IH by auto
  have memh: "mem h c = (if c = top hn \<or> c = a then w' else mem hn c)" for c
    by (auto simp: h alloc_def put_def)
  have upto: "\<exists>hk sk. gd_loop B y lr k ?init =
                     (Inr (), ((hk, sk), (take k lh, take k wh, take k bh))) \<and>
                   coefficients sk = Some a \<and>
                   (0 < k \<longrightarrow> mem h (wh ! (k - 1)) = mem hk a \<and> intercept sk = Some (bh ! (k - 1)))"
    if "k \<le> Suc n" for k
  proof (cases "k \<le> n")
    case True
    with IH obtain hk sk where
      k: "gd_loop B y lr k ?init = (Inr (), ((hk, sk), (take k lhn, take k whn, take k bhn)))"
      "coefficients sk = Some a"
      "0 < k \<longrightarrow> mem hn (whn ! (k - 1)) = mem hk a \<and> intercept sk = Some (bhn ! (k - 1))"
      by blast
    have addr: "whn ! (k - 1) \<noteq> top hn \<and> whn ! (k - 1) \<noteq> a" if "0 < k"
      using that True assms(3) by (simp add: whn tn) linarith
    show ?thesis
      using k True len addr
      by (intro exI [of _ hk] exI [of _ sk]) (auto simp: lh wh bh nth_append memh)
  next
    case False
    then have k: "k = Suc n" using that by simp
    have "gd_loop B y lr (Suc n) ?init = (Inr (), ((h, s), (lh, wh, bh)))"
      using Suc.prems by simp
    moreover have "take k lh = lh" "take k wh = wh" "take k bh = bh"
      using len by (simp_all add: k lh wh bh)
    moreover have "mem h (wh ! n) = mem h a" "bh ! n = b'"
      using len by (simp_all add: wh bh nth_append memh)
    ultimately show ?thesis
      using cn by (intro exI [of _ h] exI [of _ s]) (simp add: k s)
  qed
  have "wh = map (\<lambda>i. top h0 + i) [0..<Suc n]" by (simp add: wh whn tn)
  moreover have "top h = top h0 + Suc n" by (simp add: h alloc_def put_def tn)
  ultimately show ?case using upto cn len by (simp add: s lh bh)
qed

text \<open>
  C3. With \<open>iterations \<ge> 1\<close>, \<open>fit_gradient_descent\<close> returns on every well-formed input
  with at least one row, and whenever it returns, on any input, each of the three
  histories has exactly \<open>iterations\<close> entries; the first \<open>k\<close> entries of each are the
  histories of the run with \<open>k\<close> iterations; the snapshots are pairwise distinct array
  objects, none of them the live coefficient array; and snapshot \<open>k\<close> and intercept entry
  \<open>k\<close> still hold, after the last iteration, the coefficients and the intercept as they
  were right after iteration \<open>k\<close>.
\<close>

theorem fit_gradient_descent_traces:
  assumes "1 \<le> iterations"
  shows "(wf_array2 B \<and> 0 < ncols B \<and> length y = nrows B \<and> 0 < nrows B \<longrightarrow>
            (\<exists>t st. fit_gradient_descent rand B y lr iterations (h0, s0) = (Inr t, st))) \<and>
         (\<forall>lh bh wh h s.
            fit_gradient_descent rand B y lr iterations (h0, s0) = (Inr (lh, bh, wh), (h, s)) \<longrightarrow>
            int (length lh) = iterations \<and> int (length bh) = iterations \<and>
            int (length wh) = iterations \<and> distinct wh \<and>
            (\<forall>c\<in>set wh. coefficients s \<noteq> Some c) \<and>
            (\<forall>k. 1 \<le> k \<and> k \<le> nat iterations \<longrightarrow>
               (\<exists>hk sk a. fit_gradient_descent rand B y lr (int k) (h0, s0) =
                             (Inr (take k lh, take k bh, take k wh), (hk, sk)) \<and>
                           coefficients sk = Some a \<and>
                           mem h (wh ! (k - 1)) = mem hk a \<and>
                           intercept sk = Some (bh ! (k - 1)))))"
proof -
  have returns: "\<exists>t st. fit_gradient_descent rand B y lr iterations (h0, s0) = (Inr t, st)"
    if v: "wf_array2 B \<and> 0 < ncols B \<and> length y = nrows B \<and> 0 < nrows B"
  proof -
    obtain h1 s1 where st: "gd_start rand B (h0, s0) = ((h1, s1), ([], [], []))"
      and s1: "coefficients s1 = Some (top h0)" "intercept s1 = Some (rand (ncols B - 1) * 0.01)"
      and w1: "length (mem h1 (top h0)) = ncols B - 1" and t1: "top h0 < top h1"
      using gd_start_state [of rand B h0 s0] by auto
    from v gd_loop_valid [OF _ _ _ _ s1 w1 t1, of y lr "nat iterations" "([], [], [])"]
    obtain h s hist where
      "gd_loop B y lr (nat iterations) ((h1, s1), ([], [], [])) = (Inr (), ((h, s), hist))"
      by blast
    then show ?thesis
      using v by (cases hist) (simp add: fit_gradient_descent_loop st)
  qed
  have traces:
    "int (length lh) = iterations \<and> int (length bh) = iterations \<and>
     int (length wh) = iterations \<and> distinct wh \<and>
     (\<forall>c\<in>set wh. coefficients s \<noteq> Some c) \<and>
     (\<forall>k. 1 \<le> k \<and> k \<le> nat iterations \<longrightarrow>
        (\<exists>hk sk a. fit_gradient_descent rand B y lr (int k) (h0, s0) =
                      (Inr (take k lh, take k bh, take k wh), (hk, sk)) \<and>
                    coefficients sk = Some a \<and>
                    mem h (wh ! (k - 1)) = mem hk a \<and>
                    intercept sk = Some (bh ! (k - 1))))"
    if run: "fit_gradient_descent rand B y lr iterations (h0, s0) = (Inr (lh, bh, wh), (h, s))"
    for lh bh wh h s
  proof -
    let ?n = "nat iterations"
    have c: "0 < ncols B"
      using run by (cases "ncols B = 0") (simp_all add: fit_gradient_descent_def)
    obtain h1 s1 where st: "gd_start rand B (h0, s0) = ((h1, s1), ([], [], []))"
      and s1: "coefficients s1 = Some (top h0)" and t1: "top h0 < top h1"
      using gd_start_state [of rand B h0 s0] by auto
    from run obtain u where
      l: "gd_loop B y lr ?n ((h1, s1), ([], [], [])) = (Inr u, ((h, s), (lh, wh, bh)))"
      by (auto simp: fit_gradient_descent_loop [OF c] st split: prod.splits sum.splits)
    note T = gd_loop_traces [OF l s1 t1]
    have n: "int ?n = iterations" using assms by simp
    have wh: "wh = map (\<lambda>i. top h1 + i) [0..<?n]" using T by simp
    have len: "int (length lh) = iterations" "int (length bh) = iterations"
      "int (length wh) = iterations"
      using T n by simp_all
    have dist: "distinct wh" by (simp add: wh distinct_map inj_on_def)
    have live: "\<forall>c\<in>set wh. coefficients s \<noteq> Some c"
      using T t1 by (auto simp: wh)
    have prefix: "\<exists>hk sk a. fit_gradient_descent rand B y lr (int k) (h0, s0) =
                             (Inr (take k lh, take k bh, take k wh), (hk, sk)) \<and>
                           coefficients sk = Some a \<and>
                           mem h (wh ! (k - 1)) = mem hk a \<and>
                           intercept sk = Some (bh ! (k - 1))"
      if k: "1 \<le> k \<and> k \<le> ?n" for k
    proof -
      from k have "k \<le> ?n" "0 < k" by auto
      with T obtain hk sk where
        "gd_loop B y lr k ((h1, s1), ([], [], [])) = (Inr (), ((hk, sk), (take k lh, take k wh, take k bh)))"
        "coefficients sk = Some (top h0)"
        "mem h (wh ! (k - 1)) = mem hk (top h0) \<and> intercept sk = Some (bh ! (k - 1))"
        by blast
      then show ?thesis
        by (intro exI [of _ hk] exI [of _ sk] exI [of _ "top h0"])
           (simp add: fit_gradient_descent_loop [OF c] st)
    qed
    show ?thesis using len dist live prefix by blast
  qed
  show ?thesis using returns traces by blast
qed

lemmas gd_defs =
  fit_gradient_descent_def gd_iteration_def alloc_def put_def new_heap_def init_def example_B_def
  np_dot_mv_def np_subtract_def np_isub_def np_transpose_def column_def inner_def nrows_def

lemma example_run_1:
  "fit_gradient_descent (\<lambda>k. 0) example_B [1, 3] (1 / 2) 1 (new_heap [], init) =
     (Inr ([5], [1], [1]),
      (\<lparr>mem = (\<lambda>a. [])(0 := [3 / 4], 1 := [3 / 4]), top = 2\<rparr>,
       \<lparr>coefficients = Some 0, intercept = Some 1\<rparr>))"
  by (simp add: gd_defs upt_rec numeral_2_eq_2 power2_eq_square)

lemma example_run_2:
  "fit_gradient_descent (\<lambda>k. 0) example_B [1, 3] (1 / 2) 2 (new_heap [], init) =
     (Inr ([5, 25 / 32], [1, 21 / 16], [1, 2]),
      (\<lparr>mem = (\<lambda>a. [])(1 := [3 / 4], 0 := [17 / 16], 2 := [17 / 16]), top = 3\<rparr>,
       \<lparr>coefficients = Some 0, intercept = Some (21 / 16)\<rparr>))"
  by (simp add: gd_defs upt_rec numeral_2_eq_2 power2_eq_square)

lemma example_B_valid:
  "wf_array2 example_B" "0 < ncols example_B" "length [1, 3 :: real] = nrows example_B"
  "0 < nrows example_B"
  by (simp_all add: example_B_def wf_array2_def nrows_def)

lemma example_gradient:
  "spec_gradient example_B [1, 3] 1 [3 / 4] = [- 5 / 8, - 5 / 8]"
proof -
  have two: "[0..<2] = [0, 1]" "{..<2::nat} = {0, 1}" by (auto simp: upt_rec)
  show ?thesis
    by (simp add: spec_gradient_def spec_error_def spec_predictions_def example_B_def nrows_def two)
qed

theorem gd_update_rule_witness:
  "wf_array2 example_B \<and> 0 < ncols example_B \<and> length [1, 3 :: real] = nrows example_B \<and>
   0 < nrows example_B \<and>
   intercept (snd (snd (fit_gradient_descent (\<lambda>k. 0) example_B [1, 3] (1 / 2) 1 (new_heap [], init)))) = Some 1 \<and>
   mem (fst (snd (fit_gradient_descent (\<lambda>k. 0) example_B [1, 3] (1 / 2) 1 (new_heap [], init)))) 0 = [3 / 4] \<and>
   spec_gradient example_B [1, 3] 1 [3 / 4] = [- 5 / 8, - 5 / 8] \<and>
   intercept (snd (snd (fit_gradient_descent (\<lambda>k. 0) example_B [1, 3] (1 / 2) 2 (new_heap [], init))))
     = Some (1 - 1 / 2 * (- 5 / 8)) \<and>
   mem (fst (snd (fit_gradient_descent (\<lambda>k. 0) example_B [1, 3] (1 / 2) 2 (new_heap [], init)))) 0
     = [3 / 4 - 1 / 2 * (- 5 / 8)]"
proof -
  let ?run1 = "fit_gradient_descent (\<lambda>k. 0) example_B [1, 3] (1 / 2) 1 (new_heap [], init)"
  let ?run2 = "fit_gradient_descent (\<lambda>k. 0) example_B [1, 3] (1 / 2) 2 (new_heap [], init)"
  have i: "int 1 = 1" "int (Suc 1) = 2" by simp_all
  from gd_update_rule [OF example_B_valid, of "\<lambda>k. 0" "1 / 2" 1 "new_heap []" init, unfolded i]
  obtain hk sk hk' sk' a b where
    k: "snd ?run1 = (hk, sk)" and k': "snd ?run2 = (hk', sk')"
    and s: "intercept sk = Some b" "coefficients sk = Some a"
    and b': "intercept sk' = Some (b - 1 / 2 * spec_gradient example_B [1, 3] b (mem hk a) ! 0)"
    and w': "mem hk' a = map (\<lambda>j. mem hk a ! j - 1 / 2 * spec_gradient example_B [1, 3] b (mem hk a) ! Suc j)
                          [0..<ncols example_B - 1]"
    by blast
  have r1: "intercept (snd (snd ?run1)) = Some 1" "coefficients (snd (snd ?run1)) = Some 0"
    "mem (fst (snd ?run1)) 0 = [3 / 4]"
    using example_run_1 by simp_all
  have b: "b = 1" and a: "a = 0" and m: "mem hk 0 = [3 / 4]"
    using r1 s by (simp_all add: k)
  have nc: "ncols example_B - Suc 0 = Suc 0" by (simp add: example_B_def)
  have "intercept (snd (snd ?run2)) = Some (1 - 1 / 2 * (- 5 / 8))"
    using b' by (simp add: k' a b m example_gradient)
  moreover have "mem (fst (snd ?run2)) 0 = [3 / 4 - 1 / 2 * (- 5 / 8)]"
    using w' by (simp add: k' a b m example_gradient nc)
  ultimately show ?thesis
    using example_B_valid r1 example_gradient by simp
qed

theorem fit_gradient_descent_traces_witness:
  "(1 :: int) \<le> 2 \<and> wf_array2 example_B \<and> 0 < ncols example_B \<and>
   length [1, 3 :: real] = nrows example_B \<and> 0 < nrows example_B \<and>
   fst (fit_gradient_descent (\<lambda>k. 0) example_B [1, 3] (1 / 2) 2 (new_heap [], init)) =
     Inr ([5, 25 / 32], [1, 21 / 16], [1, 2]) \<and>
   coefficients (snd (snd (fit_gradient_descent (\<lambda>k. 0) example_B [1, 3] (1 / 2) 2 (new_heap [], init)))) = Some 0 \<and>
   map (mem (fst (snd (fit_gradient_descent (\<lambda>k. 0) example_B [1, 3] (1 / 2) 2 (new_heap [], init))))) [0, 1, 2] =
     [[17 / 16], [3 / 4], [17 / 16]] \<and>
   mem (fst (snd (fit_gradient_descent (\<lambda>k. 0) example_B [1, 3] (1 / 2) 1 (new_heap [], init)))) 0 = [3 / 4] \<and>
   int (length [5, 25 / 32 :: real]) = 2 \<and> distinct [1, 2 :: nat]"
proof -
  let ?run = "fit_gradient_descent (\<lambda>k. 0) example_B [1, 3] (1 / 2) 2 (new_heap [], init)"
  have le: "(1 :: int) \<le> 2" by simp
  note T = fit_gradient_descent_traces [OF le, of example_B "[1, 3]" "\<lambda>k. 0" "1 / 2" "new_heap []" init]
  from T example_run_2
  have "int (length [5, 25 / 32 :: real]) = 2 \<and> distinct [1, 2 :: nat]" by blast
  then show ?thesis
    using example_B_valid example_run_1 example_run_2 by simp
qed

end
